theory Spec2Isabelle
  imports Complex_Main "HOL-Library.Sublist" "HOL-Library.Multiset"
begin

section \<open>Dates, times and Python dictionaries\<close>

text \<open>
  The program works with naive \<^verbatim>\<open>datetime\<close> values. A \<^verbatim>\<open>date\<close> is modelled
  by its day number, a \<^verbatim>\<open>time\<close> by the microseconds since midnight (the resolution of
  Python's \<^verbatim>\<open>datetime.time\<close>, whose comparison is the comparison of these numbers), and
  a \<^verbatim>\<open>datetime\<close> by the microseconds since midnight of day 0. A \<^verbatim>\<open>timedelta\<close> is a
  number of microseconds.
\<close>

type_synonym date = int
type_synonym time_of_day = int
type_synonym datetime = int
type_synonym timedelta = int

definition us_per_day :: int where
  "us_per_day = 86400000000"

text \<open>\<^verbatim>\<open>datetime.combine(d, t)\<close> and \<^verbatim>\<open>dt.date()\<close>.\<close>

definition combine :: "date \<Rightarrow> time_of_day \<Rightarrow> datetime" where
  "combine d t = d * us_per_day + t"

definition date_of :: "datetime \<Rightarrow> date" where
  "date_of dt = dt div us_per_day"

text \<open>\<^verbatim>\<open>delta.total_seconds()\<close>, and \<^verbatim>\<open>delta.seconds\<close>: the seconds field of the
  normalised timedelta, between 0 and 86399, which forgets the days.\<close>

definition total_seconds :: "timedelta \<Rightarrow> real" where
  "total_seconds delta = real_of_int delta / 1000000"

definition td_seconds :: "timedelta \<Rightarrow> int" where
  "td_seconds delta = (delta div 1000000) mod 86400"

text \<open>A clock reading written as hours, minutes and seconds, for examples.\<close>

definition hms :: "int \<Rightarrow> int \<Rightarrow> int \<Rightarrow> time_of_day" where
  "hms h m s = ((h * 60 + m) * 60 + s) * 1000000"

text \<open>
  Schedules are Python dictionaries. A key that may be absent is an option-valued field:
  \<^verbatim>\<open>d[k]\<close> raises \<^verbatim>\<open>KeyError\<close> on an absent key, \<^verbatim>\<open>d.get(k, False)\<close> and the
  truth value of \<^verbatim>\<open>d.get(k)\<close> read an absent key as false.
\<close>

datatype error = KeyError string | AttributeError string

definition lookup :: "string \<Rightarrow> 'a option \<Rightarrow> error + 'a" where
  "lookup k v = (case v of None \<Rightarrow> Inl (KeyError k) | Some x \<Rightarrow> Inr x)"

definition get_flag :: "bool option \<Rightarrow> bool" where
  "get_flag v = (case v of None \<Rightarrow> False | Some b \<Rightarrow> b)"

text \<open>The truth value of an optional string argument: \<^verbatim>\<open>None\<close> and \<^verbatim>\<open>''\<close> are false.\<close>

definition truthy_str :: "string option \<Rightarrow> bool" where
  "truthy_str v = (case v of None \<Rightarrow> False | Some s \<Rightarrow> s \<noteq> [])"

record schedule =
  sid :: "string option"
  title :: "string option"
  description :: "string option"
  sdate :: "date option"
  start_time :: "time_of_day option"
  end_time :: "time_of_day option"
  category :: "string option"
  priority :: "string option"
  completed :: "bool option"
  created_at :: "datetime option"
  started :: "bool option"
  missed_notified :: "bool option"
  auto_block_triggered :: "bool option"
  auto_block_time :: "datetime option"
  auto_blocked :: "bool option"
  auto_block_executed :: "datetime option"
  start_timestamp :: "datetime option"

text \<open>The record that \<^verbatim>\<open>add_schedule\<close> builds.\<close>

definition new_schedule ::
  "string \<Rightarrow> string \<Rightarrow> string \<Rightarrow> date \<Rightarrow> time_of_day \<Rightarrow> time_of_day \<Rightarrow> string \<Rightarrow> string
     \<Rightarrow> datetime \<Rightarrow> schedule" where
  "new_schedule schedule_id ttl descr d start_t end_t cat prio now =
     \<lparr>sid = Some schedule_id, title = Some ttl, description = Some descr, sdate = Some d,
      start_time = Some start_t, end_time = Some end_t, category = Some cat,
      priority = Some prio, completed = Some False, created_at = Some now,
      started = Some False, missed_notified = Some False,
      auto_block_triggered = None, auto_block_time = None, auto_blocked = None,
      auto_block_executed = None, start_timestamp = None\<rparr>"

section \<open>Schedule store: \<^verbatim>\<open>check_schedule_conflict\<close> (config.py)\<close>

text \<open>
  The loop over \<^verbatim>\<open>st.session_state.schedules\<close>, with the list \<^verbatim>\<open>conflicts\<close> it appends to
  as an accumulator. A record of the given date without \<^verbatim>\<open>start_time\<close> or \<^verbatim>\<open>end_time\<close>,
  and a record without \<^verbatim>\<open>date\<close>, raise \<^verbatim>\<open>KeyError\<close>.
\<close>

fun conflict_loop ::
  "time_of_day \<Rightarrow> time_of_day \<Rightarrow> date \<Rightarrow> string option \<Rightarrow> schedule list \<Rightarrow> schedule list
     \<Rightarrow> error + schedule list" where
  "conflict_loop new_start new_end new_date exclude_id conflicts [] = Inr conflicts"
| "conflict_loop new_start new_end new_date exclude_id conflicts (s # ss) =
     (if truthy_str exclude_id \<and> sid s = exclude_id
      then conflict_loop new_start new_end new_date exclude_id conflicts ss
      else case lookup ''date'' (sdate s) of
        Inl e \<Rightarrow> Inl e
      | Inr d \<Rightarrow>
          if d = new_date then
            (case lookup ''start_time'' (start_time s) of
               Inl e \<Rightarrow> Inl e
             | Inr existing_start \<Rightarrow>
                (case lookup ''end_time'' (end_time s) of
                   Inl e \<Rightarrow> Inl e
                 | Inr existing_end \<Rightarrow>
                     if new_start < existing_end \<and> new_end > existing_start
                     then conflict_loop new_start new_end new_date exclude_id (conflicts @ [s]) ss
                     else conflict_loop new_start new_end new_date exclude_id conflicts ss))
          else conflict_loop new_start new_end new_date exclude_id conflicts ss)"

definition check_schedule_conflict ::
  "schedule list \<Rightarrow> time_of_day \<Rightarrow> time_of_day \<Rightarrow> date \<Rightarrow> string option
     \<Rightarrow> error + schedule list" where
  "check_schedule_conflict schedules new_start new_end new_date exclude_id =
     conflict_loop new_start new_end new_date exclude_id [] schedules"

text \<open>A record as \<^verbatim>\<open>add_schedule\<close> creates it has the three keys the check reads.\<close>

definition has_interval :: "schedule \<Rightarrow> bool" where
  "has_interval s = (sdate s \<noteq> None \<and> start_time s \<noteq> None \<and> end_time s \<noteq> None)"


section \<open>Website blocker (website\_blocker.py)\<close>

text \<open>
  The blocker edits the hosts file. The operating system is a record: whether the process
  is privileged (\<^verbatim>\<open>_check_admin_privileges\<close>), whether the hosts file can be opened for
  reading and for writing, and the text of the file as Python's text mode delivers it.
  Flushing the DNS cache touches nothing the program reads and is left out.
\<close>

record os_env =
  is_admin :: bool
  hosts_readable :: bool
  hosts_writable :: bool
  hosts :: string

record website_blocker =
  blocked_sites :: "string list"
  redirect_ip :: string
  marker_start :: string
  marker_end :: string

definition nl :: string where
  "nl = [CHR 0x0A]"

definition WebsiteBlocker :: "string list \<Rightarrow> website_blocker" where
  "WebsiteBlocker sites =
     \<lparr>blocked_sites = sites, redirect_ip = ''127.0.0.1'',
      marker_start = ''# START FOCUS MODE BLOCKING'',
      marker_end = ''# END FOCUS MODE BLOCKING''\<rparr>"

definition BLOCKED_SITES :: "string list" where
  "BLOCKED_SITES =
     [''youtube.com'', ''www.youtube.com'', ''instagram.com'', ''www.instagram.com'',
      ''facebook.com'', ''www.facebook.com'', ''twitter.com'', ''www.twitter.com'',
      ''x.com'', ''www.x.com'', ''reddit.com'', ''www.reddit.com'',
      ''netflix.com'', ''www.netflix.com'', ''twitch.tv'', ''www.twitch.tv'',
      ''tiktok.com'', ''www.tiktok.com'']"

text \<open>\<^verbatim>\<open>f.readlines()\<close>: the text cut after every newline, each line keeping its newline.\<close>

fun readlines :: "string \<Rightarrow> string list" where
  "readlines [] = []"
| "readlines (c # cs) =
     (if c = CHR 0x0A then [c] # readlines cs
      else case readlines cs of [] \<Rightarrow> [[c]] | l # ls \<Rightarrow> (c # l) # ls)"

text \<open>\<^verbatim>\<open>needle in haystack\<close> on strings.\<close>

fun str_in :: "string \<Rightarrow> string \<Rightarrow> bool" where
  "str_in needle [] = (needle = [])"
| "str_in needle (c # cs) = (prefix needle (c # cs) \<or> str_in needle cs)"

text \<open>\<^verbatim>\<open>str(n)\<close> for a natural number.\<close>

fun str_nat :: "nat \<Rightarrow> string" where
  "str_nat n =
     (if n < 10 then [char_of (48 + n)]
      else str_nat (n div 10) @ [char_of (48 + n mod 10)])"

declare str_nat.simps [simp del]

definition read_hosts_file :: "os_env \<Rightarrow> string list option" where
  "read_hosts_file env = (if hosts_readable env then Some (readlines (hosts env)) else None)"

text \<open>\<^verbatim>\<open>_write_hosts_file\<close>: the new environment, or \<open>None\<close> for the result \<^verbatim>\<open>False\<close>.\<close>

definition write_hosts_file :: "os_env \<Rightarrow> string list \<Rightarrow> os_env option" where
  "write_hosts_file env lines =
     (if hosts_writable env then Some (env\<lparr>hosts := concat lines\<rparr>) else None)"

definition is_blocking_active :: "website_blocker \<Rightarrow> os_env \<Rightarrow> bool" where
  "is_blocking_active b env =
     (case read_hosts_file env of
        None \<Rightarrow> False
      | Some lines \<Rightarrow> str_in (marker_start b) (concat lines))"

record block_result =
  success :: bool
  message :: string
  result_sites :: "string list"
  requires_admin :: bool

definition block_failed :: "string \<Rightarrow> block_result" where
  "block_failed msg = \<lparr>success = False, message = msg, result_sites = [], requires_admin = True\<rparr>"

text \<open>
  \<^verbatim>\<open>block_websites\<close>. The argument \<open>stamp\<close> is the text of
  \<^verbatim>\<open>datetime.now().strftime("%Y-%m-%d %H:%M:%S")\<close>.
\<close>

definition blocking_entries :: "website_blocker \<Rightarrow> string \<Rightarrow> string list" where
  "blocking_entries b stamp =
     [nl @ marker_start b @ nl, ''# Added by Focus Timer on '' @ stamp @ nl]
     @ map (\<lambda>site. redirect_ip b @ '' '' @ site @ nl) (blocked_sites b)
     @ [marker_end b @ nl]"

definition block_websites :: "website_blocker \<Rightarrow> string \<Rightarrow> os_env \<Rightarrow> block_result \<times> os_env" where
  "block_websites b stamp env =
     (if \<not> is_admin env then (block_failed ''Administrator/root privileges required'', env)
      else case read_hosts_file env of
        None \<Rightarrow> (block_failed ''Cannot read hosts file (permission denied)'', env)
      | Some lines \<Rightarrow>
          if is_blocking_active b env then
            (\<lparr>success = True, message = ''Blocking is already active'',
              result_sites = blocked_sites b, requires_admin = False\<rparr>, env)
          else
            (case write_hosts_file env (lines @ blocking_entries b stamp) of
               None \<Rightarrow> (block_failed ''Cannot write to hosts file (permission denied)'', env)
             | Some env' \<Rightarrow>
                 (\<lparr>success = True,
                   message = ''Successfully blocked '' @ str_nat (length (blocked_sites b))
                             @ '' websites'',
                   result_sites = blocked_sites b, requires_admin = False\<rparr>, env')))"

text \<open>The loop of \<^verbatim>\<open>unblock_websites\<close> with its flag \<^verbatim>\<open>skip\<close> and its list \<^verbatim>\<open>new_lines\<close>.\<close>

fun unblock_loop :: "website_blocker \<Rightarrow> bool \<Rightarrow> string list \<Rightarrow> string list \<Rightarrow> string list" where
  "unblock_loop b skip new_lines [] = new_lines"
| "unblock_loop b skip new_lines (line # lines) =
     (if str_in (marker_start b) line then unblock_loop b True new_lines lines
      else if str_in (marker_end b) line then unblock_loop b False new_lines lines
      else if \<not> skip then unblock_loop b skip (new_lines @ [line]) lines
      else unblock_loop b skip new_lines lines)"

record unblock_result =
  u_success :: bool
  u_message :: string

definition unblock_websites :: "website_blocker \<Rightarrow> os_env \<Rightarrow> unblock_result \<times> os_env" where
  "unblock_websites b env =
     (if \<not> is_admin env then
        (\<lparr>u_success = False, u_message = ''Administrator/root privileges required''\<rparr>, env)
      else case read_hosts_file env of
        None \<Rightarrow>
          (\<lparr>u_success = False, u_message = ''Cannot read hosts file (permission denied)''\<rparr>, env)
      | Some lines \<Rightarrow>
          (case write_hosts_file env (unblock_loop b False [] lines) of
             None \<Rightarrow>
               (\<lparr>u_success = False,
                 u_message = ''Cannot write to hosts file (permission denied)''\<rparr>, env)
           | Some env' \<Rightarrow>
               (\<lparr>u_success = True, u_message = ''Successfully unblocked all websites''\<rparr>, env')))"

text \<open>Block, then unblock, and the text left in the hosts file.\<close>

definition block_then_unblock :: "website_blocker \<Rightarrow> string \<Rightarrow> os_env \<Rightarrow> os_env" where
  "block_then_unblock b stamp env = snd (unblock_websites b (snd (block_websites b stamp env)))"

text \<open>
  The text that \<^verbatim>\<open>block_websites\<close> writes between its two marker lines, and the texts
  that \<^verbatim>\<open>readlines\<close> cuts exactly at their end.
\<close>

definition skipped_text :: "string \<Rightarrow> string list \<Rightarrow> string" where
  "skipped_text stamp sites =
     ''# Added by Focus Timer on '' @ stamp @ nl
     @ concat (map (\<lambda>site. ''127.0.0.1'' @ '' '' @ site @ nl) sites)"

definition nl_terminated :: "string \<Rightarrow> bool" where
  "nl_terminated s = (s = [] \<or> last s = CHR 0x0A)"

section \<open>Notifications and the session state\<close>

text \<open>
  A notification dictionary. Every function that builds one sets \<^verbatim>\<open>id\<close>, \<^verbatim>\<open>schedule_id\<close>,
  \<^verbatim>\<open>title\<close>, \<^verbatim>\<open>type\<close>, \<^verbatim>\<open>time\<close>, \<^verbatim>\<open>timestamp\<close> and \<^verbatim>\<open>read\<close>; the keys \<^verbatim>\<open>time_diff\<close>,
  \<^verbatim>\<open>severity\<close>, \<^verbatim>\<open>auto_block\<close> and \<^verbatim>\<open>action\<close> are set by some. The display text
  (\<^verbatim>\<open>message\<close>) is read by the page rendering only and is left out.
\<close>

record notification =
  n_id :: string
  n_schedule_id :: string
  n_title :: string
  n_type :: string
  n_time :: time_of_day
  n_time_diff :: "real option"
  n_timestamp :: datetime
  n_read :: bool
  n_severity :: "string option"
  n_auto_block :: "bool option"
  n_action :: "string option"

text \<open>
  The calls made to the desktop notification collaborator: \<^verbatim>\<open>send_schedule_alert\<close> (or
  \<^verbatim>\<open>send_schedule_notification\<close>) with the schedule and the alert kind, and
  \<^verbatim>\<open>send_blocking_notification\<close> with the number of sites. The collaborator catches its
  own failures.
\<close>

datatype desktop_call = ScheduleAlert schedule string | BlockingNotification nat

text \<open>
  The part of \<^verbatim>\<open>st.session_state\<close> the schedule functions use, and \<open>desktop_alerts\<close>,
  the log of the calls made to the desktop collaborator.
\<close>

record session =
  schedules :: "schedule list"
  notifications :: "notification list"
  last_notification_check :: "datetime option"
  blocking_active :: bool
  blocking_reason :: "string option"
  desktop_alerts :: "desktop_call list"

text \<open>\<^verbatim>\<open>any(n['id'] == notif_id for n in st.session_state.notifications)\<close>.\<close>

definition any_id :: "string \<Rightarrow> notification list \<Rightarrow> bool" where
  "any_id notif_id ns = list_ex (\<lambda>n. n_id n = notif_id) ns"

text \<open>
  \<^verbatim>\<open>for schedule in st.session_state.schedules: ...\<close> with a body that may change the
  schedule it visits and the rest of the state, or raise. An exception leaves the loop:
  the schedules visited before keep their changes, the others are untouched.
\<close>

fun for_each ::
  "('st \<Rightarrow> schedule \<Rightarrow> error + (schedule \<times> 'st)) \<Rightarrow> schedule list \<Rightarrow> 'st
     \<Rightarrow> error option \<times> schedule list \<times> 'st" where
  "for_each body [] st = (None, [], st)"
| "for_each body (s # ss) st =
     (case body st s of
        Inl e \<Rightarrow> (Some e, s # ss, st)
      | Inr (s', st') \<Rightarrow>
          (case for_each body ss st' of (r, ss', st'') \<Rightarrow> (r, s' # ss', st'')))"

text \<open>\<^verbatim>\<open>time_diff = (schedule_datetime - now).total_seconds() / 60\<close>, in minutes.\<close>

definition minutes_until :: "date \<Rightarrow> time_of_day \<Rightarrow> datetime \<Rightarrow> real" where
  "minutes_until d t now = total_seconds (combine d t - now) / 60"

text \<open>How many notifications of a list carry a given id.\<close>

definition count_id :: "string \<Rightarrow> notification list \<Rightarrow> nat" where
  "count_id notif_id ns = length (filter (\<lambda>n. n_id n = notif_id) ns)"

text \<open>
  A schedule with the four keys every evaluator reads with brackets once the schedule is
  due: the flags may be absent.
\<close>

definition well_formed :: "schedule \<Rightarrow> bool" where
  "well_formed s = (sid s \<noteq> None \<and> title s \<noteq> None \<and> sdate s \<noteq> None \<and> start_time s \<noteq> None)"

section \<open>Schedule store: \<^verbatim>\<open>add_schedule\<close>, \<^verbatim>\<open>update_schedule\<close> (config.py) and the add form\<close>


text \<open>
  \<^verbatim>\<open>update_schedule(schedule_id, **kwargs)\<close>: the first record with the id is updated (the
  update is the function \<open>upd\<close>); a record before it without \<^verbatim>\<open>id\<close> raises. The result
  \<^verbatim>\<open>False\<close> of the source (no record has the id) is the unchanged list.
\<close>

fun update_schedule :: "string \<Rightarrow> (schedule \<Rightarrow> schedule) \<Rightarrow> schedule list \<Rightarrow> error + schedule list" where
  "update_schedule schedule_id upd [] = Inr []"
| "update_schedule schedule_id upd (s # ss) =
     (case lookup ''id'' (sid s) of
        Inl e \<Rightarrow> Inl e
      | Inr i \<Rightarrow>
          if i = schedule_id then Inr (upd s # ss)
          else (case update_schedule schedule_id upd ss of
                  Inl e \<Rightarrow> Inl e
                | Inr ss' \<Rightarrow> Inr (s # ss')))"

text \<open>
  The handler of the form ``Add Schedule'' in \<^verbatim>\<open>show_schedule_manager\<close>: the add operation
  as the user reaches it. The three error messages are three outcomes.
\<close>

datatype add_outcome =
    MissingTitle
  | EndNotAfterStart
  | ConflictError "schedule list"
  | Added string


section \<open>Evaluator of enhanced\_notifications.py\<close>

text \<open>
  The loop state of \<^verbatim>\<open>check_enhanced_schedule_notifications\<close>: the session and the local
  list \<^verbatim>\<open>new_notifications\<close>. \<open>emit\<close> is the guarded block common to the six branches:
  nothing happens when a notification with the id exists; otherwise the title is read
  (\<^verbatim>\<open>KeyError\<close> when absent), the notification is appended to both lists, the schedule is
  updated, and the desktop alert is sent when the notification manager is available.
\<close>

definition emit ::
  "session \<times> notification list \<Rightarrow> schedule \<Rightarrow> string \<Rightarrow> (string \<Rightarrow> notification)
     \<Rightarrow> (schedule \<Rightarrow> schedule) \<Rightarrow> string option
     \<Rightarrow> error + (schedule \<times> session \<times> notification list)" where
  "emit st s notif_id mk upd alert =
     (case st of (sess, new_notifications) \<Rightarrow>
        if any_id notif_id (notifications sess) then Inr (s, sess, new_notifications)
        else case lookup ''title'' (title s) of
          Inl e \<Rightarrow> Inl e
        | Inr t \<Rightarrow>
            Inr (upd s,
                 sess\<lparr>notifications := notifications sess @ [mk t],
                      desktop_alerts := desktop_alerts sess
                        @ (case alert of None \<Rightarrow> [] | Some kind \<Rightarrow> [ScheduleAlert (upd s) kind])\<rparr>,
                 new_notifications @ [mk t]))"

definition enhanced_notification ::
  "string \<Rightarrow> string \<Rightarrow> string \<Rightarrow> time_of_day \<Rightarrow> real \<Rightarrow> datetime \<Rightarrow> string \<Rightarrow> bool option
     \<Rightarrow> string \<Rightarrow> notification" where
  "enhanced_notification notif_id schedule_id ty tm time_diff now sev ab t =
     \<lparr>n_id = notif_id, n_schedule_id = schedule_id, n_title = t, n_type = ty, n_time = tm,
      n_time_diff = Some time_diff, n_timestamp = now, n_read = False, n_severity = Some sev,
      n_auto_block = ab, n_action = None\<rparr>"

definition enhanced_body ::
  "bool \<Rightarrow> datetime \<Rightarrow> session \<times> notification list \<Rightarrow> schedule
     \<Rightarrow> error + (schedule \<times> session \<times> notification list)" where
  "enhanced_body desktop now st schedule =
     (if get_flag (completed schedule) then Inr (schedule, st)
      else case lookup ''date'' (sdate schedule) of
        Inl e \<Rightarrow> Inl e
      | Inr d \<Rightarrow>
          if d \<noteq> date_of now then Inr (schedule, st)
          else case lookup ''start_time'' (start_time schedule) of
            Inl e \<Rightarrow> Inl e
          | Inr tm \<Rightarrow>
             (let time_diff = minutes_until d tm now in
              case lookup ''id'' (sid schedule) of
                Inl e \<Rightarrow> Inl e
              | Inr schedule_id \<Rightarrow>
                 (let schedule_started = get_flag (started schedule) in
                  if time_diff < - 10 \<and> \<not> schedule_started then
                    emit st schedule (''auto_block_'' @ schedule_id)
                      (enhanced_notification (''auto_block_'' @ schedule_id) schedule_id
                         ''auto_block'' tm time_diff now ''critical'' (Some True))
                      (\<lambda>s. s\<lparr>auto_block_triggered := Some True, auto_block_time := Some now\<rparr>)
                      (if desktop then Some ''missed_10'' else None)
                  else if - 10 < time_diff \<and> time_diff \<le> - 5 \<and> \<not> schedule_started then
                    emit st schedule (''missed_5min_'' @ schedule_id)
                      (enhanced_notification (''missed_5min_'' @ schedule_id) schedule_id
                         ''missed_5min'' tm time_diff now ''high'' None)
                      (\<lambda>s. s)
                      (if desktop then Some ''missed_5'' else None)
                  else if - 5 < time_diff \<and> time_diff < 0 \<and> \<not> schedule_started then
                    emit st schedule (''just_missed_'' @ schedule_id)
                      (enhanced_notification (''just_missed_'' @ schedule_id) schedule_id
                         ''just_missed'' tm time_diff now ''medium'' None)
                      (\<lambda>s. s)
                      None
                  else if 9 \<le> time_diff \<and> time_diff \<le> 11 then
                    emit st schedule (''10min_'' @ schedule_id)
                      (enhanced_notification (''10min_'' @ schedule_id) schedule_id
                         ''10min_warning'' tm time_diff now ''info'' None)
                      (\<lambda>s. s)
                      (if desktop then Some ''10min'' else None)
                  else if 4 \<le> time_diff \<and> time_diff \<le> 6 then
                    emit st schedule (''5min_'' @ schedule_id)
                      (enhanced_notification (''5min_'' @ schedule_id) schedule_id
                         ''5min_warning'' tm time_diff now ''warning'' None)
                      (\<lambda>s. s)
                      (if desktop then Some ''5min'' else None)
                  else if - 1 \<le> time_diff \<and> time_diff \<le> 1 \<and> \<not> schedule_started then
                    emit st schedule (''start_'' @ schedule_id)
                      (enhanced_notification (''start_'' @ schedule_id) schedule_id
                         ''start_now'' tm time_diff now ''urgent'' None)
                      (\<lambda>s. s)
                      (if desktop then Some ''start'' else None)
                  else Inr (schedule, st))))"

text \<open>
  \<^verbatim>\<open>check_enhanced_schedule_notifications\<close>. \<open>desktop\<close> says whether the desktop
  notification manager is there and available. The result is the returned list
  \<^verbatim>\<open>new_notifications\<close> or the exception, with the session as the call leaves it. The
  check is skipped when the seconds field of the time since the last check is below 30.
\<close>

definition check_enhanced_schedule_notifications ::
  "bool \<Rightarrow> datetime \<Rightarrow> session \<Rightarrow> (error + notification list) \<times> session" where
  "check_enhanced_schedule_notifications desktop now sess =
     (let last = (case last_notification_check sess of
                    None \<Rightarrow> now - 60000000
                  | Some l \<Rightarrow> l);
          sess0 = sess\<lparr>last_notification_check := Some last\<rparr>
      in if td_seconds (now - last) < 30 then (Inr [], sess0)
         else
           (case for_each (enhanced_body desktop now) (schedules sess0)
                   (sess0\<lparr>last_notification_check := Some now\<rparr>, []) of
              (r, ss', (sess', new_notifications)) \<Rightarrow>
                ((case r of Some e \<Rightarrow> Inl e | None \<Rightarrow> Inr new_notifications),
                 sess'\<lparr>schedules := ss'\<rparr>)))"

text \<open>The evaluator invoked once for each of a list of clock readings, on the same session.\<close>

fun run_enhanced :: "bool \<Rightarrow> datetime list \<Rightarrow> session \<Rightarrow> session" where
  "run_enhanced desktop [] sess = sess"
| "run_enhanced desktop (now # nows) sess =
     run_enhanced desktop nows (snd (check_enhanced_schedule_notifications desktop now sess))"

text \<open>The check is not skipped: 30 seconds or more on the seconds field since the last one.\<close>

definition check_due :: "datetime \<Rightarrow> session \<Rightarrow> bool" where
  "check_due now sess =
     (30 \<le> td_seconds (now - (case last_notification_check sess of
                                None \<Rightarrow> now - 60000000
                              | Some l \<Rightarrow> l)))"

section \<open>Evaluator of config.py\<close>

text \<open>
  \<^verbatim>\<open>check_schedule_notifications_enhanced\<close>. It reads \<^verbatim>\<open>schedule['completed']\<close> with
  brackets, checks once a minute, and guards its ``missed'' notification by the flag
  \<^verbatim>\<open>missed_notified\<close> of the schedule, not by the notification id. The three other
  branches read the id, look for a notification with the id, and then read the title.
\<close>

definition config_notification ::
  "string \<Rightarrow> string \<Rightarrow> string \<Rightarrow> time_of_day \<Rightarrow> real \<Rightarrow> datetime \<Rightarrow> string option
     \<Rightarrow> string \<Rightarrow> notification" where
  "config_notification notif_id schedule_id ty tm time_diff now act t =
     \<lparr>n_id = notif_id, n_schedule_id = schedule_id, n_title = t, n_type = ty, n_time = tm,
      n_time_diff = Some time_diff, n_timestamp = now, n_read = False, n_severity = None,
      n_auto_block = None, n_action = act\<rparr>"

definition config_branch ::
  "datetime \<Rightarrow> session \<times> notification list \<Rightarrow> schedule \<Rightarrow> string \<Rightarrow> string \<Rightarrow> time_of_day
     \<Rightarrow> real \<Rightarrow> error + (schedule \<times> session \<times> notification list)" where
  "config_branch now st schedule pre ty tm time_diff =
     (case lookup ''id'' (sid schedule) of
        Inl e \<Rightarrow> Inl e
      | Inr schedule_id \<Rightarrow>
          emit st schedule (pre @ schedule_id)
            (config_notification (pre @ schedule_id) schedule_id ty tm time_diff now None)
            (\<lambda>s. s) None)"

definition config_body ::
  "datetime \<Rightarrow> session \<times> notification list \<Rightarrow> schedule
     \<Rightarrow> error + (schedule \<times> session \<times> notification list)" where
  "config_body now st schedule =
     (case lookup ''completed'' (completed schedule) of
        Inl e \<Rightarrow> Inl e
      | Inr done \<Rightarrow>
          if done then Inr (schedule, st)
          else case lookup ''date'' (sdate schedule) of
            Inl e \<Rightarrow> Inl e
          | Inr d \<Rightarrow>
              if d \<noteq> date_of now then Inr (schedule, st)
              else case lookup ''start_time'' (start_time schedule) of
                Inl e \<Rightarrow> Inl e
              | Inr tm \<Rightarrow>
                 (let time_diff = minutes_until d tm now in
                  if time_diff < - 15 then
                    if \<not> get_flag (missed_notified schedule) then
                      (case lookup ''id'' (sid schedule) of
                         Inl e \<Rightarrow> Inl e
                       | Inr schedule_id \<Rightarrow>
                          (case lookup ''title'' (title schedule) of
                             Inl e \<Rightarrow> Inl e
                           | Inr t \<Rightarrow>
                              (case st of (sess, new_notifications) \<Rightarrow>
                                 (let notification =
                                        config_notification (''missed_'' @ schedule_id) schedule_id
                                          ''missed'' tm time_diff now (Some ''block_sites'') t
                                  in Inr (schedule\<lparr>missed_notified := Some True\<rparr>,
                                          sess\<lparr>notifications := notifications sess @ [notification]\<rparr>,
                                          new_notifications @ [notification])))))
                    else Inr (schedule, st)
                  else if 9 \<le> time_diff \<and> time_diff \<le> 11 then
                    config_branch now st schedule ''notif_10min_'' ''10min_warning'' tm time_diff
                  else if 4 \<le> time_diff \<and> time_diff \<le> 6 then
                    config_branch now st schedule ''notif_5min_'' ''5min_warning'' tm time_diff
                  else if - 1 \<le> time_diff \<and> time_diff \<le> 1 then
                    config_branch now st schedule ''notif_start_'' ''start_now'' tm time_diff
                  else Inr (schedule, st)))"

definition check_schedule_notifications_enhanced ::
  "datetime \<Rightarrow> session \<Rightarrow> (error + notification list) \<times> session" where
  "check_schedule_notifications_enhanced now sess =
     (case last_notification_check sess of
        None \<Rightarrow> (Inl (AttributeError ''last_notification_check''), sess)
      | Some last_check \<Rightarrow>
          if td_seconds (now - last_check) < 60 then (Inr [], sess)
          else
            (case for_each (config_body now) (schedules sess)
                    (sess\<lparr>last_notification_check := Some now\<rparr>, []) of
               (r, ss', (sess', new_notifications)) \<Rightarrow>
                 ((case r of Some e \<Rightarrow> Inl e | None \<Rightarrow> Inr new_notifications),
                  sess'\<lparr>schedules := ss'\<rparr>)))"

text \<open>The evaluator invoked once for each of a list of clock readings, on the same session.\<close>

fun run_config :: "datetime list \<Rightarrow> session \<Rightarrow> session" where
  "run_config [] sess = sess"
| "run_config (now # nows) sess =
     run_config nows (snd (check_schedule_notifications_enhanced now sess))"

section \<open>Schedule manager page (pages.py): notification check\<close>

text \<open>
  The section ``notification checking and auto-blocking'' of \<^verbatim>\<open>show_schedule_manager\<close>.
  It runs on every rendering of the page, with \<^verbatim>\<open>now\<close> read once at the top. The loop
  state is the session with the local list \<^verbatim>\<open>new_notifications\<close>, and the operating
  system, which the auto-block branch changes through the blocker. \<open>desktop\<close> says
  whether the call of \<^verbatim>\<open>send_schedule_alert\<close> inside \<^verbatim>\<open>try\<close> goes through, and \<open>stamp\<close>
  is the time stamp \<^verbatim>\<open>block_websites\<close> writes.
\<close>

definition page_notification ::
  "string \<Rightarrow> string \<Rightarrow> string \<Rightarrow> time_of_day \<Rightarrow> real option \<Rightarrow> datetime \<Rightarrow> bool option
     \<Rightarrow> string \<Rightarrow> notification" where
  "page_notification notif_id schedule_id ty tm time_diff now ab t =
     \<lparr>n_id = notif_id, n_schedule_id = schedule_id, n_title = t, n_type = ty, n_time = tm,
      n_time_diff = time_diff, n_timestamp = now, n_read = False, n_severity = None,
      n_auto_block = ab, n_action = None\<rparr>"

text \<open>The guarded block of the five branches that do not block, on the page's loop state.\<close>

definition page_emit ::
  "(session \<times> notification list) \<times> os_env \<Rightarrow> schedule \<Rightarrow> string \<Rightarrow> (string \<Rightarrow> notification)
     \<Rightarrow> string option
     \<Rightarrow> error + (schedule \<times> (session \<times> notification list) \<times> os_env)" where
  "page_emit st s notif_id mk alert =
     (case emit (fst st) s notif_id mk (\<lambda>s. s) alert of
        Inl e \<Rightarrow> Inl e
      | Inr (s', st1) \<Rightarrow> Inr (s', st1, snd st))"

definition page_body ::
  "website_blocker \<Rightarrow> bool \<Rightarrow> string \<Rightarrow> datetime \<Rightarrow> (session \<times> notification list) \<times> os_env
     \<Rightarrow> schedule \<Rightarrow> error + (schedule \<times> (session \<times> notification list) \<times> os_env)" where
  "page_body blocker desktop stamp now st schedule =
     (if get_flag (completed schedule) then Inr (schedule, st)
      else case lookup ''date'' (sdate schedule) of
        Inl e \<Rightarrow> Inl e
      | Inr d \<Rightarrow>
          if d \<noteq> date_of now then Inr (schedule, st)
          else case lookup ''start_time'' (start_time schedule) of
            Inl e \<Rightarrow> Inl e
          | Inr tm \<Rightarrow>
             (let time_diff = minutes_until d tm now in
              case lookup ''id'' (sid schedule) of
                Inl e \<Rightarrow> Inl e
              | Inr schedule_id \<Rightarrow>
                 (let schedule_started = get_flag (started schedule) in
                  if - 11 < time_diff \<and> time_diff \<le> - 10 \<and> \<not> schedule_started
                     \<and> \<not> get_flag (auto_block_triggered schedule) then
                    (case st of ((sess, new_notifications), env) \<Rightarrow>
                       if any_id (''auto_block_'' @ schedule_id) (notifications sess)
                       then Inr (schedule, st)
                       else case lookup ''title'' (title schedule) of
                         Inl e \<Rightarrow> Inl e
                       | Inr t \<Rightarrow>
                          (let notification =
                                 page_notification (''auto_block_'' @ schedule_id) schedule_id
                                   ''critical'' tm None now (Some True) t;
                               sess1 = sess\<lparr>notifications := notifications sess @ [notification]\<rparr>;
                               new1 = new_notifications @ [notification];
                               s1 = schedule\<lparr>auto_block_triggered := Some True,
                                             auto_block_time := Some now\<rparr>
                           in if is_admin env then
                                (case block_websites blocker stamp env of
                                   (result, env') \<Rightarrow>
                                     if success result then
                                       (let s2 = s1\<lparr>auto_blocked := Some True\<rparr> in
                                        Inr (s2,
                                          (sess1\<lparr>blocking_active := True,
                                                 blocking_reason := Some (''Missed schedule: '' @ t),
                                                 desktop_alerts := desktop_alerts sess1
                                                   @ (if desktop then [ScheduleAlert s2 ''missed_10'']
                                                      else [])\<rparr>,
                                           new1), env'))
                                     else Inr (s1, (sess1, new1), env'))
                              else Inr (s1, (sess1, new1), env)))
                  else if - 10 < time_diff \<and> time_diff \<le> - 5 \<and> \<not> schedule_started then
                    page_emit st schedule (''missed_5min_'' @ schedule_id)
                      (page_notification (''missed_5min_'' @ schedule_id) schedule_id
                         ''warning'' tm (Some time_diff) now None)
                      None
                  else if - 5 < time_diff \<and> time_diff < 0 \<and> \<not> schedule_started then
                    page_emit st schedule (''just_missed_'' @ schedule_id)
                      (page_notification (''just_missed_'' @ schedule_id) schedule_id
                         ''late'' tm (Some time_diff) now None)
                      None
                  else if 9 \<le> time_diff \<and> time_diff \<le> 11 then
                    page_emit st schedule (''10min_'' @ schedule_id)
                      (page_notification (''10min_'' @ schedule_id) schedule_id
                         ''upcoming'' tm (Some time_diff) now None)
                      (if desktop then Some ''10min'' else None)
                  else if 4 \<le> time_diff \<and> time_diff \<le> 6 then
                    page_emit st schedule (''5min_'' @ schedule_id)
                      (page_notification (''5min_'' @ schedule_id) schedule_id
                         ''soon'' tm (Some time_diff) now None)
                      (if desktop then Some ''5min'' else None)
                  else if - 1 \<le> time_diff \<and> time_diff \<le> 1 \<and> \<not> schedule_started then
                    page_emit st schedule (''start_'' @ schedule_id)
                      (page_notification (''start_'' @ schedule_id) schedule_id
                         ''start'' tm (Some time_diff) now None)
                      (if desktop then Some ''start'' else None)
                  else Inr (schedule, st))))"

definition page_check ::
  "website_blocker \<Rightarrow> bool \<Rightarrow> string \<Rightarrow> datetime \<Rightarrow> session \<times> os_env
     \<Rightarrow> (error + notification list) \<times> session \<times> os_env" where
  "page_check blocker desktop stamp now st =
     (case st of (sess, env) \<Rightarrow>
        (case for_each (page_body blocker desktop stamp now) (schedules sess) ((sess, []), env) of
           (r, ss', ((sess', new_notifications), env')) \<Rightarrow>
             ((case r of Some e \<Rightarrow> Inl e | None \<Rightarrow> Inr new_notifications),
              sess'\<lparr>schedules := ss'\<rparr>, env')))"

section \<open>Schedule manager page (pages.py): display order of the notifications\<close>

text \<open>
  \<^verbatim>\<open>type_priority.get(n.get('type', 'upcoming'), 99)\<close> and
  \<^verbatim>\<open>sorted(unread_notifs, key=...)\<close>. Python's \<^verbatim>\<open>sorted\<close> is stable, as \<open>sort_key\<close> is.
\<close>

definition type_priority :: "string \<Rightarrow> nat" where
  "type_priority ty =
     (if ty = ''critical'' then 0
      else if ty = ''warning'' then 1
      else if ty = ''late'' then 2
      else if ty = ''start'' then 3
      else if ty = ''soon'' then 4
      else if ty = ''upcoming'' then 5
      else 99)"

definition unread_notifs :: "notification list \<Rightarrow> notification list" where
  "unread_notifs ns = filter (\<lambda>n. \<not> n_read n) ns"

definition sorted_notifs :: "notification list \<Rightarrow> notification list" where
  "sorted_notifs ns = sort_key (\<lambda>n. type_priority (n_type n)) (unread_notifs ns)"

text \<open>
  The order the specification words: critical, then warning and late together, then start,
  soon and upcoming, with the older notification first among equals.
\<close>

definition spec_tier :: "string \<Rightarrow> nat" where
  "spec_tier ty =
     (if ty = ''critical'' then 0
      else if ty = ''warning'' \<or> ty = ''late'' then 1
      else if ty = ''start'' then 2
      else if ty = ''soon'' then 3
      else 4)"

definition spec_before :: "notification \<Rightarrow> notification \<Rightarrow> bool" where
  "spec_before a b =
     (spec_tier (n_type a) < spec_tier (n_type b)
      \<or> (spec_tier (n_type a) = spec_tier (n_type b) \<and> n_timestamp a \<le> n_timestamp b))"

text \<open>
  The order the code produces on a list whose notifications stand in the order of their
  timestamps: six priorities, warning before late, the older first among equals.
\<close>

definition shown_before :: "notification \<Rightarrow> notification \<Rightarrow> bool" where
  "shown_before a b =
     (type_priority (n_type a) < type_priority (n_type b)
      \<or> (type_priority (n_type a) = type_priority (n_type b) \<and> n_timestamp a \<le> n_timestamp b))"

section \<open>Schedule manager page (pages.py): the button ``Complete''\<close>

text \<open>
  The loop that clears the auto-block flags after a successful unblock: only a schedule
  whose \<^verbatim>\<open>auto_block_triggered\<close> is true is touched.
\<close>

definition clear_auto_block :: "schedule \<Rightarrow> schedule" where
  "clear_auto_block s =
     (if get_flag (auto_block_triggered s)
      then s\<lparr>auto_block_triggered := Some False, auto_blocked := Some False\<rparr>
      else s)"

text \<open>
  The handler, for the schedule at position \<open>k\<close> of the session's list (the page shows the
  very dictionaries of that list). \<^verbatim>\<open>update_schedule\<close> marks the first schedule with the
  id completed; the flags are then read from the schedule the button belongs to.
\<close>

definition complete_schedule ::
  "website_blocker \<Rightarrow> nat \<Rightarrow> session \<times> os_env \<Rightarrow> error + (session \<times> os_env)" where
  "complete_schedule blocker k st =
     (case st of (sess, env) \<Rightarrow>
        if length (schedules sess) \<le> k then Inr (sess, env)
        else case lookup ''id'' (sid (schedules sess ! k)) of
          Inl e \<Rightarrow> Inl e
        | Inr schedule_id \<Rightarrow>
           (case update_schedule schedule_id (\<lambda>s. s\<lparr>completed := Some True\<rparr>) (schedules sess) of
              Inl e \<Rightarrow> Inl e
            | Inr ss1 \<Rightarrow>
               (let schedule = ss1 ! k in
                if get_flag (auto_blocked schedule) \<and> is_blocking_active blocker env then
                  (case unblock_websites blocker env of
                     (result, env') \<Rightarrow>
                       if u_success result then
                         Inr (sess\<lparr>schedules := map clear_auto_block ss1,
                                   blocking_active := False, blocking_reason := None\<rparr>, env')
                       else Inr (sess\<lparr>schedules := ss1\<rparr>, env'))
                else Inr (sess\<lparr>schedules := ss1\<rparr>, env))))"

text \<open>
  The button ``Unblock All Websites Now'' of the settings in the sidebar (app2.py), shown
  to a privileged process while blocking is active. It unblocks and, on success, clears
  \<^verbatim>\<open>blocking_active\<close>; it touches no schedule.
\<close>

definition unblock_all_now :: "website_blocker \<Rightarrow> session \<times> os_env \<Rightarrow> session \<times> os_env" where
  "unblock_all_now blocker st =
     (case st of (sess, env) \<Rightarrow>
        if is_admin env \<and> is_blocking_active blocker env then
          (case unblock_websites blocker env of
             (result, env') \<Rightarrow>
               if u_success result then (sess\<lparr>blocking_active := False\<rparr>, env')
               else (sess, env'))
        else (sess, env))"

section \<open>Background service (notification\_service.py)\<close>

text \<open>
  \<^verbatim>\<open>BackgroundNotificationService.check_and_notify\<close>, on the list of schedules it has just
  loaded from the snapshot file. The service keeps the dictionary \<^verbatim>\<open>notifications_sent\<close>
  (key to time of sending; \<open>sent_at\<close> is that clock reading) and hands the notifications
  to the desktop collaborator; \<open>sent\<close> is the log of these calls. The loaded schedules are
  not changed.
\<close>

record service =
  notifications_sent :: "string \<rightharpoonup> datetime"
  sent :: "desktop_call list"

definition service_send ::
  "datetime \<Rightarrow> service \<Rightarrow> schedule \<Rightarrow> string \<Rightarrow> string \<Rightarrow> error + (schedule \<times> service)" where
  "service_send sent_at sv schedule notif_key kind =
     (if notifications_sent sv notif_key \<noteq> None then Inr (schedule, sv)
      else case lookup ''title'' (title schedule) of
        Inl e \<Rightarrow> Inl e
      | Inr t \<Rightarrow>
          Inr (schedule,
               sv\<lparr>notifications_sent := (notifications_sent sv)(notif_key \<mapsto> sent_at),
                  sent := sent sv @ [ScheduleAlert schedule kind]\<rparr>))"

definition service_body ::
  "datetime \<Rightarrow> datetime \<Rightarrow> service \<Rightarrow> schedule \<Rightarrow> error + (schedule \<times> service)" where
  "service_body now sent_at sv schedule =
     (if get_flag (completed schedule) then Inr (schedule, sv)
      else if get_flag (started schedule) then Inr (schedule, sv)
      else case lookup ''date'' (sdate schedule) of
        Inl e \<Rightarrow> Inl e
      | Inr d \<Rightarrow>
          if d \<noteq> date_of now then Inr (schedule, sv)
          else case lookup ''id'' (sid schedule) of
            Inl e \<Rightarrow> Inl e
          | Inr schedule_id \<Rightarrow>
             (case lookup ''start_time'' (start_time schedule) of
                Inl e \<Rightarrow> Inl e
              | Inr tm \<Rightarrow>
                 (let time_diff = minutes_until d tm now in
                  if 9 \<le> time_diff \<and> time_diff \<le> 11 then
                    service_send sent_at sv schedule (schedule_id @ ''_10min'') ''10min''
                  else if 4 \<le> time_diff \<and> time_diff \<le> 6 then
                    service_send sent_at sv schedule (schedule_id @ ''_5min'') ''5min''
                  else if - 1 \<le> time_diff \<and> time_diff \<le> 1 then
                    service_send sent_at sv schedule (schedule_id @ ''_start'') ''start''
                  else if - 6 \<le> time_diff \<and> time_diff < - 4 then
                    service_send sent_at sv schedule (schedule_id @ ''_missed_5'') ''missed_5''
                  else if time_diff < - 10 then
                    service_send sent_at sv schedule (schedule_id @ ''_missed_10'') ''missed_10''
                  else Inr (schedule, sv))))"

definition check_and_notify ::
  "datetime \<Rightarrow> datetime \<Rightarrow> schedule list \<Rightarrow> service \<Rightarrow> error option \<times> service" where
  "check_and_notify now sent_at loaded sv =
     (if loaded = [] then (None, sv)
      else case for_each (service_body now sent_at) loaded sv of
        (r, ss', sv') \<Rightarrow> (r, sv'))"

section \<open>Records an evaluator passes over\<close>



section \<open>Auto-block trigger: \<^verbatim>\<open>handle_auto_blocking\<close> (enhanced\_notifications.py)\<close>

text \<open>
  The loop state is the session, the operating system and the local list
  \<^verbatim>\<open>blocked_schedules\<close>. \<open>executed\<close> is the clock reading stored under
  \<^verbatim>\<open>auto_block_executed\<close>. The title is first read for the message printed before the
  blocker is called.
\<close>

definition handle_body ::
  "website_blocker \<Rightarrow> bool \<Rightarrow> string \<Rightarrow> datetime \<Rightarrow> (session \<times> string list) \<times> os_env
     \<Rightarrow> schedule \<Rightarrow> error + (schedule \<times> (session \<times> string list) \<times> os_env)" where
  "handle_body blocker desktop stamp executed st schedule =
     (case st of ((sess, blocked_schedules), env) \<Rightarrow>
        if get_flag (auto_block_triggered schedule) \<and> \<not> get_flag (auto_blocked schedule) then
          if get_flag (started schedule)
          then Inr (schedule\<lparr>auto_block_triggered := Some False\<rparr>, st)
          else if \<not> is_admin env
          then Inr (schedule\<lparr>auto_block_triggered := Some False\<rparr>, st)
          else case lookup ''title'' (title schedule) of
            Inl e \<Rightarrow> Inl e
          | Inr t \<Rightarrow>
             (case block_websites blocker stamp env of
                (result, env') \<Rightarrow>
                  if success result then
                    Inr (schedule\<lparr>auto_blocked := Some True, auto_block_executed := Some executed\<rparr>,
                         (sess\<lparr>blocking_active := True,
                                blocking_reason := Some (''Missed schedule: '' @ t),
                                desktop_alerts := desktop_alerts sess
                                  @ (if desktop
                                     then [BlockingNotification (length (result_sites result))]
                                     else [])\<rparr>,
                          blocked_schedules @ [t]), env')
                  else Inr (schedule\<lparr>auto_block_triggered := Some False\<rparr>,
                            (sess, blocked_schedules), env'))
        else Inr (schedule, st))"

record auto_block_report =
  r_success :: bool
  r_blocked_schedules :: "string list"

definition handle_auto_blocking ::
  "website_blocker \<Rightarrow> bool \<Rightarrow> string \<Rightarrow> datetime \<Rightarrow> session \<times> os_env
     \<Rightarrow> (error + auto_block_report) \<times> session \<times> os_env" where
  "handle_auto_blocking blocker desktop stamp executed st =
     (case st of (sess, env) \<Rightarrow>
        (case for_each (handle_body blocker desktop stamp executed) (schedules sess)
                ((sess, []), env) of
           (r, ss', ((sess', blocked_schedules), env')) \<Rightarrow>
             ((case r of
                 Some e \<Rightarrow> Inl e
               | None \<Rightarrow> Inr \<lparr>r_success = (length blocked_schedules > 0),
                               r_blocked_schedules = blocked_schedules\<rparr>),
              sess'\<lparr>schedules := ss'\<rparr>, env')))"

section \<open>Auto-block trigger: \<^verbatim>\<open>auto_block_for_missed_schedules\<close> (enhanced\_schedule\_config.py)\<close>

text \<open>
  Here the schedule is marked and the hosts file written before the title and the id are
  read, so an exception leaves these changes behind: the loop returns the exception
  together with the state reached. The activity log is written to a file no function
  modelled here reads.
\<close>

fun missed_loop ::
  "website_blocker \<Rightarrow> bool \<Rightarrow> string \<Rightarrow> schedule list \<Rightarrow> (session \<times> string list) \<times> os_env
     \<Rightarrow> error option \<times> schedule list \<times> (session \<times> string list) \<times> os_env" where
  "missed_loop blocker desktop stamp [] st = (None, [], st)"
| "missed_loop blocker desktop stamp (schedule # rest) st =
     (case st of ((sess, blocked_schedules), env) \<Rightarrow>
        if get_flag (auto_block_triggered schedule) \<and> \<not> get_flag (auto_blocked schedule) then
          if \<not> is_admin env then
            (case missed_loop blocker desktop stamp rest st of
               (r, rest', st') \<Rightarrow> (r, schedule\<lparr>auto_blocked := Some False\<rparr> # rest', st'))
          else
            (case block_websites blocker stamp env of
               (result, env') \<Rightarrow>
                 if success result then
                   (let s1 = schedule\<lparr>auto_blocked := Some True\<rparr> in
                    case lookup ''title'' (title schedule) of
                      Inl e \<Rightarrow> (Some e, s1 # rest, (sess, blocked_schedules), env')
                    | Inr t \<Rightarrow>
                       (let sess1 = sess\<lparr>desktop_alerts := desktop_alerts sess
                                          @ (if desktop
                                             then [BlockingNotification (length (result_sites result))]
                                             else [])\<rparr>
                        in case lookup ''id'' (sid schedule) of
                          Inl e \<Rightarrow> (Some e, s1 # rest, (sess1, blocked_schedules @ [t]), env')
                        | Inr schedule_id \<Rightarrow>
                           (case missed_loop blocker desktop stamp rest
                                   ((sess1\<lparr>blocking_active := True\<rparr>, blocked_schedules @ [t]), env') of
                              (r, rest', st') \<Rightarrow> (r, s1 # rest', st'))))
                 else
                   (case missed_loop blocker desktop stamp rest ((sess, blocked_schedules), env') of
                      (r, rest', st') \<Rightarrow> (r, schedule # rest', st')))
        else
          (case missed_loop blocker desktop stamp rest st of
             (r, rest', st') \<Rightarrow> (r, schedule # rest', st')))"

definition auto_block_for_missed_schedules ::
  "website_blocker \<Rightarrow> bool \<Rightarrow> string \<Rightarrow> session \<times> os_env
     \<Rightarrow> (error + auto_block_report) \<times> session \<times> os_env" where
  "auto_block_for_missed_schedules blocker desktop stamp st =
     (case st of (sess, env) \<Rightarrow>
        (case missed_loop blocker desktop stamp (schedules sess) ((sess, []), env) of
           (r, ss', ((sess', blocked_schedules), env')) \<Rightarrow>
             ((case r of
                 Some e \<Rightarrow> Inl e
               | None \<Rightarrow> Inr \<lparr>r_success = (length blocked_schedules > 0),
                               r_blocked_schedules = blocked_schedules\<rparr>),
              sess'\<lparr>schedules := ss'\<rparr>, env')))"

text \<open>
  What the two triggers leave of a schedule when \<^verbatim>\<open>block_websites\<close> fails:
  \<^verbatim>\<open>handle_auto_blocking\<close> withdraws the trigger, \<^verbatim>\<open>auto_block_for_missed_schedules\<close>
  keeps it and, without privileges, writes \<^verbatim>\<open>auto_blocked = False\<close>.
\<close>

definition handle_on_failure :: "schedule \<Rightarrow> schedule" where
  "handle_on_failure s =
     (if get_flag (auto_block_triggered s) \<and> \<not> get_flag (auto_blocked s)
      then s\<lparr>auto_block_triggered := Some False\<rparr> else s)"

definition missed_on_failure :: "os_env \<Rightarrow> schedule \<Rightarrow> schedule" where
  "missed_on_failure env s =
     (if get_flag (auto_block_triggered s) \<and> \<not> get_flag (auto_blocked s) \<and> \<not> is_admin env
      then s\<lparr>auto_blocked := Some False\<rparr> else s)"

section \<open>Example data\<close>

definition example_env :: os_env where
  "example_env =
     \<lparr>is_admin = True, hosts_readable = True, hosts_writable = True,
      hosts = ''127.0.0.1 localhost'' @ nl\<rparr>"

definition example_stamp :: string where
  "example_stamp = ''2024-01-01 00:00:00''"

text \<open>
  A task ``Study'' from 14:00 to 15:00 on day 100, created at 09:00, and a session that
  holds it and nothing else.
\<close>

definition study :: schedule where
  "study = new_schedule ''schedule_0_1000.5'' ''Study'' [] 100 (hms 14 0 0) (hms 15 0 0)
             ''Study'' ''Medium'' (combine 100 (hms 9 0 0))"

definition study_session :: session where
  "study_session =
     \<lparr>schedules = [study], notifications = [], last_notification_check = None,
      blocking_active = False, blocking_reason = None, desktop_alerts = []\<rparr>"

text \<open>A stored task from 10:30 to 11:30 on day 100.\<close>

definition task_a :: schedule where
  "task_a = new_schedule ''schedule_0_1000.5'' ''A'' [] 100 (hms 10 30 0) (hms 11 30 0)
              ''Work'' ''Medium'' (combine 100 (hms 9 0 0))"


text \<open>The same session after a check at 13:00, and three clock readings around 13:50.\<close>

definition study_session_checked :: session where
  "study_session_checked = study_session\<lparr>last_notification_check := Some (combine 100 (hms 13 0 0))\<rparr>"

definition around_ten_before :: "datetime list" where
  "around_ten_before = [combine 100 (hms 13 49 30), combine 100 (hms 13 50 30), combine 100 (hms 13 50 45)]"

text \<open>The task once the user has started it, and a session that holds it.\<close>

definition study_started :: schedule where
  "study_started = study\<lparr>started := Some True, start_timestamp := Some (combine 100 (hms 14 2 0))\<rparr>"

definition started_session :: session where
  "started_session = study_session\<lparr>schedules := [study_started]\<rparr>"

definition empty_service :: service where
  "empty_service = \<lparr>notifications_sent = Map.empty, sent = []\<rparr>"




text \<open>An unread notification of a given type and timestamp.\<close>

definition example_notification :: "string \<Rightarrow> datetime \<Rightarrow> notification" where
  "example_notification ty ts =
     \<lparr>n_id = ty @ ''_schedule_0_1000.5'', n_schedule_id = ''schedule_0_1000.5'',
      n_title = ''Study'', n_type = ty, n_time = hms 14 0 0, n_time_diff = None,
      n_timestamp = ts, n_read = False, n_severity = None, n_auto_block = None,
      n_action = None\<rparr>"

text \<open>
  The session and the operating system as the check of the schedule page leaves them when
  it auto-blocks the task at 14:10:30, and the task as that session holds it.
\<close>

definition blocked_session :: session where
  "blocked_session =
     fst (snd (page_check (WebsiteBlocker BLOCKED_SITES) True example_stamp
                 (combine 100 (hms 14 10 30)) (study_session, example_env)))"

definition blocked_env :: os_env where
  "blocked_env =
     snd (snd (page_check (WebsiteBlocker BLOCKED_SITES) True example_stamp
                 (combine 100 (hms 14 10 30)) (study_session, example_env)))"

definition blocked_task :: schedule where
  "blocked_task =
     study\<lparr>auto_block_triggered := Some True,
           auto_block_time := Some (combine 100 (hms 14 10 30)), auto_blocked := Some True\<rparr>"

text \<open>The operating system once the blocking section has been taken out again.\<close>

definition unblocked_env :: os_env where
  "unblocked_env =
     \<lparr>is_admin = True, hosts_readable = True, hosts_writable = True,
      hosts = ''127.0.0.1 localhost'' @ nl @ nl\<rparr>"

text \<open>The task once the evaluator has triggered the auto-block, and no privileges.\<close>

definition triggered_task :: schedule where
  "triggered_task = study\<lparr>auto_block_triggered := Some True,
                          auto_block_time := Some (combine 100 (hms 14 10 1))\<rparr>"

definition triggered_session :: session where
  "triggered_session = study_session\<lparr>schedules := [triggered_task]\<rparr>"

definition plain_env :: os_env where
  "plain_env = example_env\<lparr>is_admin := False\<rparr>"

section \<open>Properties of the conflict check\<close>

lemma conflict_loop_filter:
  "list_all has_interval ss \<Longrightarrow>
   conflict_loop s1 e1 d None acc ss =
     Inr (acc @ filter (\<lambda>s. sdate s = Some d \<and> s1 < the (end_time s) \<and> the (start_time s) < e1) ss)"
proof (induction ss arbitrary: acc)
  case Nil
  then show ?case by simp
next
  case (Cons s ss)
  then show ?case
    by (auto simp: has_interval_def lookup_def truthy_str_def)
qed

text \<open>
  Claim C4. For a new interval \<open>[s1, e1)\<close> on date \<open>d\<close> and any stored schedule \<open>x\<close> of that
  date with interval \<open>[s2, e2)\<close>, the conflict check (no record excluded, every stored record
  holding its date and both times) returns a list that contains \<open>x\<close> exactly when
  \<open>s1 < e2\<close> and \<open>s2 < e1\<close>. Adjacent intervals (\<open>e1 = s2\<close>) therefore never conflict.
\<close>

theorem check_schedule_conflict_overlap_iff:
  assumes "list_all has_interval store"
    and "x \<in> set store"
    and "sdate x = Some d" and "start_time x = Some s2" and "end_time x = Some e2"
  shows "\<exists>conflicts. check_schedule_conflict store s1 e1 d None = Inr conflicts
           \<and> (x \<in> set conflicts \<longleftrightarrow> s1 < e2 \<and> s2 < e1)
           \<and> (e1 = s2 \<longrightarrow> x \<notin> set conflicts)"
  using assms by (auto simp: check_schedule_conflict_def conflict_loop_filter)

lemma task_a_facts:
  "list_all has_interval [task_a]" "task_a \<in> set [task_a]" "sdate task_a = Some 100"
  "start_time task_a = Some (hms 10 30 0)" "end_time task_a = Some (hms 11 30 0)"
  by (simp_all add: task_a_def new_schedule_def has_interval_def)

theorem check_schedule_conflict_overlap_iff_witness:
  "(\<exists>conflicts. check_schedule_conflict [task_a] (hms 10 0 0) (hms 11 0 0) 100 None = Inr conflicts
       \<and> task_a \<in> set conflicts)
   \<and> (\<exists>conflicts. check_schedule_conflict [task_a] (hms 9 30 0) (hms 10 30 0) 100 None = Inr conflicts
       \<and> task_a \<notin> set conflicts)"
  using check_schedule_conflict_overlap_iff[OF task_a_facts, of "hms 10 0 0" "hms 11 0 0"]
    check_schedule_conflict_overlap_iff[OF task_a_facts, of "hms 9 30 0" "hms 10 30 0"]
  by (simp add: hms_def)

section \<open>Properties of the loop and of notification ids\<close>

lemma for_each_length: "for_each body ss st = (r, ss', st') \<Longrightarrow> length ss' = length ss"
  by (induction ss arbitrary: st r ss' st') (auto split: sum.splits prod.splits)

lemma for_each_invariant:
  assumes step: "\<And>st s s' st'. s \<in> set ss \<Longrightarrow> P st \<Longrightarrow> body st s = Inr (s', st') \<Longrightarrow> P st'"
    and init: "P st"
  shows "P (snd (snd (for_each body ss st)))"
  using assms
proof (induction ss arbitrary: st)
  case Nil
  then show ?case by simp
next
  case (Cons s ss)
  show ?case
  proof (cases "body st s")
    case (Inl e)
    with Cons.prems show ?thesis by simp
  next
    case (Inr p)
    obtain s' st' where p: "p = (s', st')" by (cases p)
    have "P st'" using Cons.prems(1)[of s st s' st'] Cons.prems(2) Inr p by simp
    then have "P (snd (snd (for_each body ss st')))"
      by (rule Cons.IH[rotated]) (rule Cons.prems(1), auto)
    then show ?thesis using Inr p by (cases "for_each body ss st'") auto
  qed
qed

lemma count_id_append [simp]: "count_id X (ns @ ms) = count_id X ns + count_id X ms"
  by (simp add: count_id_def)

lemma count_id_single [simp]: "count_id X [n] = (if n_id n = X then 1 else 0)"
  by (simp add: count_id_def)

lemma any_id_count: "any_id X ns \<longleftrightarrow> count_id X ns \<noteq> 0"
  by (induction ns) (auto simp: any_id_def count_id_def)

lemma emit_count:
  assumes "emit (sess, new) s X mk upd alert = Inr (s', sess', new')"
    and "\<And>t. n_id (mk t) = X"
    and "count_id Y (notifications sess) \<le> 1"
  shows "count_id Y (notifications sess') \<le> 1"
  using assms
  by (auto simp: emit_def lookup_def any_id_count split: if_splits option.splits)

lemma for_each_append:
  "for_each body (xs @ ys) st =
     (case for_each body xs st of
        (None, xs', st') \<Rightarrow> (case for_each body ys st' of (r, ys', st'') \<Rightarrow> (r, xs' @ ys', st''))
      | (Some e, xs', st') \<Rightarrow> (Some e, xs' @ ys, st'))"
  by (induction xs arbitrary: st) (auto split: sum.splits prod.splits option.splits)

lemma for_each_ok:
  assumes "\<And>s st. s \<in> set ss \<Longrightarrow> \<exists>y. body st s = Inr y"
  shows "fst (for_each body ss st) = None"
  using assms
proof (induction ss arbitrary: st)
  case Nil
  then show ?case by simp
next
  case (Cons s ss)
  from Cons.prems[of s st] obtain s' st' where b: "body st s = Inr (s', st')" by auto
  have "fst (for_each body ss st') = None"
  proof (rule Cons.IH)
    fix t st assume "t \<in> set ss"
    then have "t \<in> set (s # ss)" by simp
    then show "\<exists>y. body st t = Inr y" by (rule Cons.prems)
  qed
  with b show ?case by (cases "for_each body ss st'") auto
qed

lemma for_each_mid:
  assumes "fst (for_each body (pre @ s # post) st) = None"
  obtains pre' s' post' st1 st2 st' where
    "for_each body pre st = (None, pre', st1)" "body st1 s = Inr (s', st2)"
    "for_each body post st2 = (None, post', st')"
    "for_each body (pre @ s # post) st = (None, pre' @ s' # post', st')"
    "length pre' = length pre"
proof -
  obtain r1 pre' st1 where p: "for_each body pre st = (r1, pre', st1)" by (cases "for_each body pre st")
  with assms have r1: "r1 = None" by (auto simp: for_each_append split: option.splits prod.splits)
  from assms p r1 have "fst (for_each body (s # post) st1) = None"
    by (auto simp: for_each_append split: prod.splits)
  then obtain s' st2 where b: "body st1 s = Inr (s', st2)"
    by (cases "body st1 s") (auto split: prod.splits)
  obtain r3 post' st' where q: "for_each body post st2 = (r3, post', st')" by (cases "for_each body post st2")
  with assms p r1 b have r3: "r3 = None" by (auto simp: for_each_append)
  have "for_each body (pre @ s # post) st = (None, pre' @ s' # post', st')"
    using p r1 b q r3 by (simp add: for_each_append)
  moreover have "length pre' = length pre" using p by (rule for_each_length)
  ultimately show ?thesis using that p r1 b q r3 by blast
qed

lemma for_each_const:
  assumes "\<And>t a b t'. t \<in> set ss \<Longrightarrow> body a t = Inr (t', b) \<Longrightarrow> C b = C a"
  shows "C (snd (snd (for_each body ss st))) = C st"
proof (rule for_each_invariant[where P = "\<lambda>x. C x = C st"])
  show "C st = C st" by simp
next
  fix a t t' b assume "t \<in> set ss" "C a = C st" "body a t = Inr (t', b)"
  then show "C b = C st" using assms[of t a t' b] by simp
qed

lemma for_each_const_if:
  assumes "\<And>t a b t'. t \<in> set ss \<Longrightarrow> Q (C a) \<Longrightarrow> body a t = Inr (t', b) \<Longrightarrow> C b = C a"
    and "Q (C st)"
  shows "C (snd (snd (for_each body ss st))) = C st"
proof (rule for_each_invariant[where P = "\<lambda>x. C x = C st"])
  show "C st = C st" by simp
next
  fix a t t' b assume "t \<in> set ss" "C a = C st" "body a t = Inr (t', b)"
  then show "C b = C st" using assms(1)[of t a t' b] assms(2) by simp
qed

lemma for_each_added:
  assumes "\<And>t a b t'. t \<in> set ss \<Longrightarrow> body a t = Inr (t', b)
             \<Longrightarrow> \<exists>added. L b = L a @ added \<and> (\<forall>n \<in> set added. G n)"
  shows "\<exists>added. L (snd (snd (for_each body ss st))) = L st @ added \<and> (\<forall>n \<in> set added. G n)"
proof (rule for_each_invariant[where P = "\<lambda>x. \<exists>added. L x = L st @ added \<and> (\<forall>n \<in> set added. G n)"])
  show "\<exists>added. L st = L st @ added \<and> (\<forall>n \<in> set added. G n)" by simp
next
  fix a t t' b
  assume t: "t \<in> set ss" and "\<exists>added. L a = L st @ added \<and> (\<forall>n \<in> set added. G n)"
    and b: "body a t = Inr (t', b)"
  then obtain x where x: "L a = L st @ x" "\<forall>n \<in> set x. G n" by blast
  from assms[OF t b] obtain y where y: "L b = L a @ y" "\<forall>n \<in> set y. G n" by blast
  have "L b = L st @ (x @ y)" using x y by simp
  moreover have "\<forall>n \<in> set (x @ y). G n" using x y by auto
  ultimately show "\<exists>added. L b = L st @ added \<and> (\<forall>n \<in> set added. G n)" by blast
qed





section \<open>Properties of the add form\<close>






section \<open>Properties of the evaluator of enhanced\_notifications.py\<close>

lemma enhanced_notification_id [simp]:
  "n_id (enhanced_notification notif_id schedule_id ty tm time_diff now sev ab t) = notif_id"
  by (simp add: enhanced_notification_def)

lemma enhanced_body_count:
  assumes "enhanced_body desktop now (sess, new) s = Inr (s', sess', new')"
    and "count_id Y (notifications sess) \<le> 1"
  shows "count_id Y (notifications sess') \<le> 1"
  using assms
  unfolding enhanced_body_def Let_def
  by (auto split: if_splits sum.splits option.splits simp: emit_def lookup_def any_id_count)

lemma check_enhanced_count:
  assumes "count_id Y (notifications sess) \<le> 1"
  shows "count_id Y (notifications (snd (check_enhanced_schedule_notifications desktop now sess))) \<le> 1"
proof -
  define last where "last = (case last_notification_check sess of None \<Rightarrow> now - 60000000 | Some l \<Rightarrow> l)"
  define sess0 where "sess0 = sess\<lparr>last_notification_check := Some last\<rparr>"
  define st0 where "st0 = (sess0\<lparr>last_notification_check := Some now\<rparr>, [] :: notification list)"
  let ?P = "\<lambda>st :: session \<times> notification list. count_id Y (notifications (fst st)) \<le> 1"
  have "?P (snd (snd (for_each (enhanced_body desktop now) (schedules sess0) st0)))"
  proof (rule for_each_invariant)
    show "?P st0" using assms by (simp add: st0_def sess0_def)
  next
    fix st s s' st'
    assume "?P st" and "enhanced_body desktop now st s = Inr (s', st')"
    then show "?P st'"
      using enhanced_body_count[of desktop now "fst st" "snd st" s s' "fst st'" "snd st'"] by simp
  qed
  then show ?thesis
    using assms
    unfolding check_enhanced_schedule_notifications_def Let_def last_def[symmetric] sess0_def[symmetric] st0_def[symmetric]
    by (auto split: prod.splits simp: sess0_def)
qed

lemma run_enhanced_count:
  "count_id Y (notifications sess) \<le> 1 \<Longrightarrow> count_id Y (notifications (run_enhanced desktop nows sess)) \<le> 1"
proof (induction nows arbitrary: sess)
  case Nil
  then show ?case by simp
next
  case (Cons now nows)
  from Cons.IH[OF check_enhanced_count[OF Cons.prems]] show ?case by simp
qed

lemma well_formed_enhanced_body:
  "well_formed s \<Longrightarrow> \<exists>y. enhanced_body desktop now st s = Inr y"
  unfolding enhanced_body_def Let_def well_formed_def
  by (cases st) (auto simp: emit_def lookup_def)

lemma enhanced_body_step:
  assumes "enhanced_body desktop now (sess, new) s = Inr (s', sess', new')"
  shows "\<exists>added. notifications sess' = notifications sess @ added \<and> new' = new @ added
           \<and> (\<forall>n \<in> set added. sid s = Some (n_schedule_id n)
                 \<and> (get_flag (started s) \<longrightarrow> n_type n = ''10min_warning'' \<or> n_type n = ''5min_warning''))"
  using assms
  unfolding enhanced_body_def Let_def
  by (auto split: if_splits sum.splits option.splits simp: emit_def lookup_def enhanced_notification_def)

lemma enhanced_body_other:
  assumes "enhanced_body desktop now (sess, new) s = Inr (s', sess', new')"
    and "sid s \<noteq> Some i"
  shows "count_id (''auto_block_'' @ i) (notifications sess') = count_id (''auto_block_'' @ i) (notifications sess)"
  using assms
  unfolding enhanced_body_def Let_def
  by (auto split: if_splits sum.splits option.splits simp: emit_def lookup_def enhanced_notification_def)

lemma enhanced_body_keep:
  assumes "enhanced_body desktop now (sess, new) s = Inr (s', sess', new')"
    and "count_id X (notifications sess) \<noteq> 0"
  shows "count_id X (notifications sess') = count_id X (notifications sess)"
  using assms
  unfolding enhanced_body_def Let_def
  by (auto split: if_splits sum.splits option.splits simp: emit_def lookup_def any_id_count)

lemma enhanced_body_fire:
  assumes "\<not> get_flag (completed s)" "sdate s = Some (date_of now)" "start_time s = Some tm"
    "sid s = Some i" "title s = Some t" "\<not> get_flag (started s)"
    "minutes_until (date_of now) tm now < - 10"
    "count_id (''auto_block_'' @ i) (notifications sess) = 0"
    "enhanced_body desktop now (sess, new) s = Inr (s', sess', new')"
  shows "auto_block_triggered s' = Some True
         \<and> count_id (''auto_block_'' @ i) (notifications sess') = 1
         \<and> (\<exists>n. new' = new @ [n] \<and> n_type n = ''auto_block'' \<and> n_schedule_id n = i)"
  using assms
  unfolding enhanced_body_def Let_def
  by (auto simp: emit_def lookup_def any_id_count enhanced_notification_def)

lemma enhanced_body_quiet:
  assumes "sdate s = Some d" "start_time s = Some tm"
    "- 10 < minutes_until d tm now"
    "enhanced_body desktop now (sess, new) s = Inr (s', sess', new')"
  shows "s' = s
         \<and> count_id (''auto_block_'' @ i) (notifications sess') = count_id (''auto_block_'' @ i) (notifications sess)"
  using assms
  unfolding enhanced_body_def Let_def
  by (auto split: if_splits sum.splits option.splits simp: emit_def lookup_def enhanced_notification_def)

lemma check_enhanced_unfold:
  assumes "check_due now sess"
  shows "check_enhanced_schedule_notifications desktop now sess =
    (case for_each (enhanced_body desktop now) (schedules sess)
            (sess\<lparr>last_notification_check := Some now\<rparr>, []) of
       (r, ss', (sess', new_notifications)) \<Rightarrow>
         ((case r of Some e \<Rightarrow> Inl e | None \<Rightarrow> Inr new_notifications), sess'\<lparr>schedules := ss'\<rparr>))"
  using assms
  by (simp add: check_enhanced_schedule_notifications_def check_due_def Let_def not_less[symmetric])

lemma enhanced_auto_block:
  assumes wf: "list_all well_formed (schedules sess)" and due: "check_due now sess"
    and split: "schedules sess = pre @ s # post"
    and ids: "\<forall>t \<in> set pre \<union> set post. sid t \<noteq> Some i"
    and s: "sid s = Some i" "sdate s = Some (date_of now)" "start_time s = Some tm"
      "\<not> get_flag (started s)" "\<not> get_flag (completed s)"
    and fresh: "count_id (''auto_block_'' @ i) (notifications sess) = 0"
  shows "(minutes_until (date_of now) tm now < - 10 \<longrightarrow>
            count_id (''auto_block_'' @ i)
              (notifications (snd (check_enhanced_schedule_notifications desktop now sess))) = 1
            \<and> auto_block_triggered
                (schedules (snd (check_enhanced_schedule_notifications desktop now sess)) ! length pre)
                = Some True)
       \<and> (- 10 < minutes_until (date_of now) tm now \<longrightarrow>
            count_id (''auto_block_'' @ i)
              (notifications (snd (check_enhanced_schedule_notifications desktop now sess))) = 0
            \<and> schedules (snd (check_enhanced_schedule_notifications desktop now sess)) ! length pre = s)"
proof -
  let ?X = "''auto_block_'' @ i"
  let ?body = "enhanced_body desktop now"
  let ?st0 = "(sess\<lparr>last_notification_check := Some now\<rparr>, [] :: notification list)"
  let ?C = "\<lambda>st :: session \<times> notification list. count_id ?X (notifications (fst st))"
  have "fst (for_each ?body (pre @ s # post) ?st0) = None"
  proof (rule for_each_ok)
    fix t st assume "t \<in> set (pre @ s # post)"
    with wf split have "well_formed t" by (auto simp: list_all_iff)
    then show "\<exists>y. ?body st t = Inr y" by (rule well_formed_enhanced_body)
  qed
  then obtain pre' s' post' st1 st2 st' where
    p: "for_each ?body pre ?st0 = (None, pre', st1)" and b: "?body st1 s = Inr (s', st2)"
    and q: "for_each ?body post st2 = (None, post', st')"
    and all: "for_each ?body (pre @ s # post) ?st0 = (None, pre' @ s' # post', st')"
    and len: "length pre' = length pre"
    by (rule for_each_mid)
  have other: "?C b = ?C a" if "t \<in> set pre \<union> set post" "?body a t = Inr (t', b)" for t t' a b
    using enhanced_body_other[of desktop now "fst a" "snd a" t t' "fst b" "snd b" i] that ids by auto
  have c1: "?C st1 = 0"
  proof -
    have "?C (snd (snd (for_each ?body pre ?st0))) = ?C ?st0"
      by (rule for_each_const) (rule other, auto)
    then show ?thesis using fresh by (simp add: p)
  qed
  obtain sess1 new1 where st1: "st1 = (sess1, new1)" by (cases st1)
  obtain sess2 new2 where st2: "st2 = (sess2, new2)" by (cases st2)
  have res: "snd (check_enhanced_schedule_notifications desktop now sess) = (fst st')\<lparr>schedules := pre' @ s' # post'\<rparr>"
    using all by (simp add: check_enhanced_unfold[OF due] split split: prod.splits)
  have nth: "(pre' @ s' # post') ! length pre = s'" using len by (metis nth_append_length)
  show ?thesis
  proof (intro conjI impI)
    assume late: "minutes_until (date_of now) tm now < - 10"
    from wf split have "title s \<noteq> None" by (simp add: well_formed_def)
    then obtain t where t: "title s = Some t" by auto
    from enhanced_body_fire[OF s(5) s(2) s(3) s(1) t s(4) late _ b[unfolded st1 st2]] c1
    have f: "auto_block_triggered s' = Some True" "?C st2 = 1" by (simp_all add: st1 st2)
    have "?C (snd (snd (for_each ?body post st2))) = ?C st2"
    proof (rule for_each_const_if[where Q = "\<lambda>c. c \<noteq> 0"])
      show "?C st2 \<noteq> 0" using f by simp
    next
      fix a t t' b assume "?C a \<noteq> 0" "?body a t = Inr (t', b)"
      then show "?C b = ?C a"
        using enhanced_body_keep[of desktop now "fst a" "snd a" t t' "fst b" "snd b" ?X] by simp
    qed
    then have "?C st' = 1" using f by (simp add: q)
    then show "count_id ?X (notifications (snd (check_enhanced_schedule_notifications desktop now sess))) = 1"
      by (simp add: res)
    show "auto_block_triggered (schedules (snd (check_enhanced_schedule_notifications desktop now sess)) ! length pre) = Some True"
      using f nth by (simp add: res)
  next
    assume early: "- 10 < minutes_until (date_of now) tm now"
    from enhanced_body_quiet[OF s(2) s(3) early b[unfolded st1 st2], of i] c1
    have f: "s' = s" "?C st2 = 0" by (simp_all add: st1 st2)
    have "?C (snd (snd (for_each ?body post st2))) = ?C st2"
      by (rule for_each_const) (rule other, auto)
    then have "?C st' = 0" using f by (simp add: q)
    then show "count_id ?X (notifications (snd (check_enhanced_schedule_notifications desktop now sess))) = 0"
      by (simp add: res)
    show "schedules (snd (check_enhanced_schedule_notifications desktop now sess)) ! length pre = s"
      using f nth by (simp add: res)
  qed
qed

lemma enhanced_started:
  assumes "\<forall>t \<in> set (schedules sess). sid t = Some i \<longrightarrow> get_flag (started t)"
  shows "\<exists>added. notifications (snd (check_enhanced_schedule_notifications desktop now sess))
                   = notifications sess @ added
           \<and> (\<forall>n \<in> set added. n_schedule_id n = i \<longrightarrow>
                  n_type n = ''10min_warning'' \<or> n_type n = ''5min_warning'')"
proof (cases "check_due now sess")
  case False
  then show ?thesis
    by (simp add: check_enhanced_schedule_notifications_def check_due_def Let_def not_le)
next
  case True
  let ?st0 = "(sess\<lparr>last_notification_check := Some now\<rparr>, [] :: notification list)"
  let ?L = "\<lambda>st :: session \<times> notification list. notifications (fst st)"
  have "\<exists>added. ?L (snd (snd (for_each (enhanced_body desktop now) (schedules sess) ?st0)))
                   = ?L ?st0 @ added
          \<and> (\<forall>n \<in> set added. n_schedule_id n = i \<longrightarrow>
                  n_type n = ''10min_warning'' \<or> n_type n = ''5min_warning'')"
  proof (rule for_each_added)
    fix t a b t'
    assume t: "t \<in> set (schedules sess)" and b: "enhanced_body desktop now a t = Inr (t', b)"
    from enhanced_body_step[of desktop now "fst a" "snd a" t t' "fst b" "snd b"] b
    obtain added where ad: "notifications (fst b) = notifications (fst a) @ added"
      "\<forall>n \<in> set added. sid t = Some (n_schedule_id n)
          \<and> (get_flag (started t) \<longrightarrow> n_type n = ''10min_warning'' \<or> n_type n = ''5min_warning'')"
      by auto
    have "\<forall>n \<in> set added. n_schedule_id n = i \<longrightarrow>
            n_type n = ''10min_warning'' \<or> n_type n = ''5min_warning''"
      using ad(2) assms t by auto
    with ad(1) show "\<exists>added. ?L b = ?L a @ added
          \<and> (\<forall>n \<in> set added. n_schedule_id n = i \<longrightarrow>
                  n_type n = ''10min_warning'' \<or> n_type n = ''5min_warning'')" by blast
  qed
  then show ?thesis
    by (cases "for_each (enhanced_body desktop now) (schedules sess) ?st0")
      (auto simp: check_enhanced_unfold[OF True])
qed









section \<open>Properties of the evaluator of config.py\<close>

lemma config_body_count:
  assumes "config_body now (sess, new) s = Inr (s', sess', new')"
    and "\<not> prefix ''missed_'' Y"
    and "count_id Y (notifications sess) \<le> 1"
  shows "count_id Y (notifications sess') \<le> 1"
  using assms
  unfolding config_body_def config_branch_def Let_def
  by (auto split: if_splits sum.splits option.splits
      simp: emit_def lookup_def any_id_count config_notification_def)

lemma check_config_count:
  assumes "\<not> prefix ''missed_'' Y" and "count_id Y (notifications sess) \<le> 1"
  shows "count_id Y (notifications (snd (check_schedule_notifications_enhanced now sess))) \<le> 1"
proof (cases "last_notification_check sess")
  case None
  then show ?thesis using assms by (simp add: check_schedule_notifications_enhanced_def)
next
  case (Some l)
  define st0 where "st0 = (sess\<lparr>last_notification_check := Some now\<rparr>, [] :: notification list)"
  let ?P = "\<lambda>st :: session \<times> notification list. count_id Y (notifications (fst st)) \<le> 1"
  have "?P (snd (snd (for_each (config_body now) (schedules sess) st0)))"
  proof (rule for_each_invariant)
    show "?P st0" using assms by (simp add: st0_def)
  next
    fix st s s' st'
    assume "?P st" and "config_body now st s = Inr (s', st')"
    then show "?P st'"
      using config_body_count[of now "fst st" "snd st" s s' "fst st'" "snd st'" Y] assms(1) by simp
  qed
  then show ?thesis
    using assms Some
    unfolding check_schedule_notifications_enhanced_def st0_def[symmetric]
    by (auto split: prod.splits)
qed

lemma run_config_count:
  "\<not> prefix ''missed_'' Y \<Longrightarrow> count_id Y (notifications sess) \<le> 1
   \<Longrightarrow> count_id Y (notifications (run_config nows sess)) \<le> 1"
proof (induction nows arbitrary: sess)
  case Nil
  then show ?case by simp
next
  case (Cons now nows)
  from Cons.IH[OF Cons.prems(1) check_config_count[OF Cons.prems]] show ?case by simp
qed

section \<open>Properties of the notification check of the schedule manager page\<close>

lemma well_formed_page_body:
  "well_formed s \<Longrightarrow> \<exists>y. page_body blocker desktop stamp now st s = Inr y"
  unfolding page_body_def Let_def well_formed_def
  by (cases st) (auto simp: page_emit_def emit_def lookup_def split: prod.splits)

lemma page_body_other:
  assumes "page_body blocker desktop stamp now ((sess, new), env) s = Inr (s', (sess', new'), env')"
    and "sid s \<noteq> Some i"
  shows "count_id (''auto_block_'' @ i) (notifications sess') = count_id (''auto_block_'' @ i) (notifications sess)"
  using assms
  unfolding page_body_def Let_def
  by (auto split: if_splits sum.splits option.splits prod.splits
      simp: page_emit_def emit_def lookup_def page_notification_def)

lemma page_body_keep:
  assumes "page_body blocker desktop stamp now ((sess, new), env) s = Inr (s', (sess', new'), env')"
    and "count_id X (notifications sess) \<noteq> 0"
  shows "count_id X (notifications sess') = count_id X (notifications sess)"
  using assms
  unfolding page_body_def Let_def
  by (auto split: if_splits sum.splits option.splits prod.splits
      simp: page_emit_def emit_def lookup_def any_id_count page_notification_def)

lemma page_body_fire:
  assumes "\<not> get_flag (completed s)" "sdate s = Some (date_of now)" "start_time s = Some tm"
    "sid s = Some i" "title s = Some t" "\<not> get_flag (started s)"
    "\<not> get_flag (auto_block_triggered s)"
    "- 11 < minutes_until (date_of now) tm now" "minutes_until (date_of now) tm now \<le> - 10"
    "count_id (''auto_block_'' @ i) (notifications sess) = 0"
    "page_body blocker desktop stamp now ((sess, new), env) s = Inr (s', (sess', new'), env')"
  shows "auto_block_triggered s' = Some True
         \<and> count_id (''auto_block_'' @ i) (notifications sess') = 1"
  using assms
  unfolding page_body_def Let_def
  by (auto simp: lookup_def any_id_count page_notification_def split: prod.splits if_splits)

lemma page_body_quiet:
  assumes "sdate s = Some d" "start_time s = Some tm"
    "- 10 < minutes_until d tm now \<or> minutes_until d tm now \<le> - 11"
    "page_body blocker desktop stamp now ((sess, new), env) s = Inr (s', (sess', new'), env')"
  shows "s' = s
         \<and> count_id (''auto_block_'' @ i) (notifications sess') = count_id (''auto_block_'' @ i) (notifications sess)"
  using assms
  unfolding page_body_def Let_def
  by (auto split: if_splits sum.splits option.splits
      simp: page_emit_def emit_def lookup_def page_notification_def)

lemma page_auto_block:
  assumes wf: "list_all well_formed (schedules sess)"
    and split: "schedules sess = pre @ s # post"
    and ids: "\<forall>t \<in> set pre \<union> set post. sid t \<noteq> Some i"
    and s: "sid s = Some i" "sdate s = Some (date_of now)" "start_time s = Some tm"
      "\<not> get_flag (started s)" "\<not> get_flag (completed s)"
    and fresh: "count_id (''auto_block_'' @ i) (notifications sess) = 0"
  shows "(- 11 < minutes_until (date_of now) tm now \<and> minutes_until (date_of now) tm now \<le> - 10
            \<and> \<not> get_flag (auto_block_triggered s) \<longrightarrow>
            count_id (''auto_block_'' @ i)
              (notifications (fst (snd (page_check blocker desktop stamp now (sess, env))))) = 1
            \<and> auto_block_triggered
                (schedules (fst (snd (page_check blocker desktop stamp now (sess, env)))) ! length pre)
                = Some True)
       \<and> (- 10 < minutes_until (date_of now) tm now \<or> minutes_until (date_of now) tm now \<le> - 11 \<longrightarrow>
            count_id (''auto_block_'' @ i)
              (notifications (fst (snd (page_check blocker desktop stamp now (sess, env))))) = 0
            \<and> schedules (fst (snd (page_check blocker desktop stamp now (sess, env)))) ! length pre = s)"
proof -
  let ?X = "''auto_block_'' @ i"
  let ?body = "page_body blocker desktop stamp now"
  let ?st0 = "((sess, [] :: notification list), env)"
  let ?C = "\<lambda>st :: (session \<times> notification list) \<times> os_env. count_id ?X (notifications (fst (fst st)))"
  let ?res = "fst (snd (page_check blocker desktop stamp now (sess, env)))"
  have "fst (for_each ?body (pre @ s # post) ?st0) = None"
  proof (rule for_each_ok)
    fix t st assume "t \<in> set (pre @ s # post)"
    with wf split have "well_formed t" by (auto simp: list_all_iff)
    then show "\<exists>y. ?body st t = Inr y" by (rule well_formed_page_body)
  qed
  then obtain pre' s' post' st1 st2 st' where
    p: "for_each ?body pre ?st0 = (None, pre', st1)" and b: "?body st1 s = Inr (s', st2)"
    and q: "for_each ?body post st2 = (None, post', st')"
    and all: "for_each ?body (pre @ s # post) ?st0 = (None, pre' @ s' # post', st')"
    and len: "length pre' = length pre"
    by (rule for_each_mid)
  have other: "?C b = ?C a" if "t \<in> set pre \<union> set post" "?body a t = Inr (t', b)" for t t' a b
    using page_body_other[of blocker desktop stamp now "fst (fst a)" "snd (fst a)" "snd a" t t'
        "fst (fst b)" "snd (fst b)" "snd b" i] that ids by auto
  have c1: "?C st1 = 0"
  proof -
    have "?C (snd (snd (for_each ?body pre ?st0))) = ?C ?st0"
      by (rule for_each_const) (rule other, auto)
    then show ?thesis using fresh by (simp add: p)
  qed
  obtain sess1 new1 env1 where st1: "st1 = ((sess1, new1), env1)" by (cases st1) auto
  obtain sess2 new2 env2 where st2: "st2 = ((sess2, new2), env2)" by (cases st2) auto
  have res: "?res = (fst (fst st'))\<lparr>schedules := pre' @ s' # post'\<rparr>"
    using all by (simp add: page_check_def split split: prod.splits)
  have nth: "(pre' @ s' # post') ! length pre = s'" using len by (metis nth_append_length)
  show ?thesis
  proof (intro conjI impI)
    assume w: "- 11 < minutes_until (date_of now) tm now \<and> minutes_until (date_of now) tm now \<le> - 10
            \<and> \<not> get_flag (auto_block_triggered s)"
    from wf split have "title s \<noteq> None" by (simp add: well_formed_def)
    then obtain t where t: "title s = Some t" by auto
    from page_body_fire[OF s(5) s(2) s(3) s(1) t s(4) _ _ _ _ b[unfolded st1 st2]] w c1
    have f: "auto_block_triggered s' = Some True" "?C st2 = 1" by (simp_all add: st1 st2)
    have "?C (snd (snd (for_each ?body post st2))) = ?C st2"
    proof (rule for_each_const_if[where Q = "\<lambda>c. c \<noteq> 0"])
      show "?C st2 \<noteq> 0" using f by simp
    next
      fix a t t' b assume "?C a \<noteq> 0" "?body a t = Inr (t', b)"
      then show "?C b = ?C a"
        using page_body_keep[of blocker desktop stamp now "fst (fst a)" "snd (fst a)" "snd a" t t'
            "fst (fst b)" "snd (fst b)" "snd b" ?X] by simp
    qed
    then have "?C st' = 1" using f by (simp add: q)
    then show "count_id ?X (notifications ?res) = 1" by (simp add: res)
    show "auto_block_triggered (schedules ?res ! length pre) = Some True"
      using f nth by (simp add: res)
  next
    assume w: "- 10 < minutes_until (date_of now) tm now \<or> minutes_until (date_of now) tm now \<le> - 11"
    from page_body_quiet[OF s(2) s(3) w b[unfolded st1 st2], of i] c1
    have f: "s' = s" "?C st2 = 0" by (simp_all add: st1 st2)
    have "?C (snd (snd (for_each ?body post st2))) = ?C st2"
      by (rule for_each_const) (rule other, auto)
    then have "?C st' = 0" using f by (simp add: q)
    then show "count_id ?X (notifications ?res) = 0" by (simp add: res)
    show "schedules ?res ! length pre = s" using f nth by (simp add: res)
  qed
qed

lemma page_body_step:
  assumes "page_body blocker desktop stamp now ((sess, new), env) s = Inr (s', (sess', new'), env')"
  shows "\<exists>added. notifications sess' = notifications sess @ added
           \<and> (\<forall>n \<in> set added. sid s = Some (n_schedule_id n)
                 \<and> (get_flag (started s) \<longrightarrow> n_type n = ''upcoming'' \<or> n_type n = ''soon''))"
  using assms
  unfolding page_body_def Let_def
  by (auto split: if_splits sum.splits option.splits prod.splits
      simp: page_emit_def emit_def lookup_def page_notification_def)

lemma page_started:
  assumes "\<forall>t \<in> set (schedules sess). sid t = Some i \<longrightarrow> get_flag (started t)"
  shows "\<exists>added. notifications (fst (snd (page_check blocker desktop stamp now (sess, env))))
                   = notifications sess @ added
           \<and> (\<forall>n \<in> set added. n_schedule_id n = i \<longrightarrow>
                  n_type n = ''upcoming'' \<or> n_type n = ''soon'')"
proof -
  let ?st0 = "((sess, [] :: notification list), env)"
  let ?L = "\<lambda>st :: (session \<times> notification list) \<times> os_env. notifications (fst (fst st))"
  have "\<exists>added. ?L (snd (snd (for_each (page_body blocker desktop stamp now) (schedules sess) ?st0)))
                   = ?L ?st0 @ added
          \<and> (\<forall>n \<in> set added. n_schedule_id n = i \<longrightarrow> n_type n = ''upcoming'' \<or> n_type n = ''soon'')"
  proof (rule for_each_added)
    fix t a b t'
    assume t: "t \<in> set (schedules sess)"
      and b: "page_body blocker desktop stamp now a t = Inr (t', b)"
    from page_body_step[of blocker desktop stamp now "fst (fst a)" "snd (fst a)" "snd a" t t'
        "fst (fst b)" "snd (fst b)" "snd b"] b
    obtain added where ad: "notifications (fst (fst b)) = notifications (fst (fst a)) @ added"
      "\<forall>n \<in> set added. sid t = Some (n_schedule_id n)
          \<and> (get_flag (started t) \<longrightarrow> n_type n = ''upcoming'' \<or> n_type n = ''soon'')"
      by auto
    have "\<forall>n \<in> set added. n_schedule_id n = i \<longrightarrow> n_type n = ''upcoming'' \<or> n_type n = ''soon''"
      using ad(2) assms t by auto
    with ad(1) show "\<exists>added. ?L b = ?L a @ added
          \<and> (\<forall>n \<in> set added. n_schedule_id n = i \<longrightarrow> n_type n = ''upcoming'' \<or> n_type n = ''soon'')"
      by blast
  qed
  then show ?thesis
    by (cases "for_each (page_body blocker desktop stamp now) (schedules sess) ?st0")
      (auto simp: page_check_def)
qed

section \<open>Properties of the button ``Complete''\<close>

lemma update_schedule_at:
  assumes "k < length ss" and "sid (ss ! k) = Some i"
    and "\<forall>j < k. \<exists>i'. sid (ss ! j) = Some i' \<and> i' \<noteq> i"
  shows "update_schedule i upd ss = Inr (ss[k := upd (ss ! k)])"
  using assms
proof (induction ss arbitrary: k)
  case Nil
  then show ?case by simp
next
  case (Cons s ss)
  show ?case
  proof (cases k)
    case 0
    with Cons.prems show ?thesis by (simp add: lookup_def)
  next
    case (Suc k')
    from Cons.prems(3) Suc obtain i' where i': "sid s = Some i'" "i' \<noteq> i" by fastforce
    have "update_schedule i upd ss = Inr (ss[k' := upd (ss ! k')])"
    proof (rule Cons.IH)
      show "k' < length ss" using Cons.prems(1) Suc by simp
      show "sid (ss ! k') = Some i" using Cons.prems(2) Suc by simp
      show "\<forall>j<k'. \<exists>i'. sid (ss ! j) = Some i' \<and> i' \<noteq> i"
      proof (intro allI impI)
        fix j assume "j < k'"
        then have "Suc j < k" using Suc by simp
        with Cons.prems(3) show "\<exists>i'. sid (ss ! j) = Some i' \<and> i' \<noteq> i" by fastforce
      qed
    qed
    with i' Suc show ?thesis by (simp add: lookup_def)
  qed
qed

lemma unblock_succeeds:
  "is_admin env \<Longrightarrow> hosts_readable env \<Longrightarrow> hosts_writable env
   \<Longrightarrow> u_success (fst (unblock_websites b env))"
  by (simp add: unblock_websites_def read_hosts_file_def write_hosts_file_def)

lemma unblock_fails:
  "\<not> is_admin env \<or> \<not> hosts_writable env
   \<Longrightarrow> \<not> u_success (fst (unblock_websites b env)) \<and> snd (unblock_websites b env) = env"
  by (auto simp: unblock_websites_def read_hosts_file_def write_hosts_file_def split: option.splits)

lemma blocking_active_readable: "is_blocking_active b env \<Longrightarrow> hosts_readable env"
  by (simp add: is_blocking_active_def read_hosts_file_def split: if_splits)

lemma complete_schedule_flags:
  assumes k: "k < length (schedules sess)" and i: "sid (schedules sess ! k) = Some i"
    and first: "\<forall>j < k. \<exists>i'. sid (schedules sess ! j) = Some i' \<and> i' \<noteq> i"
    and ab: "get_flag (auto_blocked (schedules sess ! k))"
  shows "(get_flag (auto_block_triggered (schedules sess ! k))
          \<and> is_blocking_active b env \<and> is_admin env \<and> hosts_writable env \<longrightarrow>
            (\<exists>sess' env'. complete_schedule b k (sess, env) = Inr (sess', env')
               \<and> schedules sess' ! k
                   = (schedules sess ! k)\<lparr>completed := Some True,
                        auto_block_triggered := Some False, auto_blocked := Some False\<rparr>))
       \<and> (\<not> is_blocking_active b env \<or> \<not> is_admin env \<or> \<not> hosts_writable env \<longrightarrow>
            (\<exists>sess'. complete_schedule b k (sess, env) = Inr (sess', env)
               \<and> schedules sess' ! k = (schedules sess ! k)\<lparr>completed := Some True\<rparr>))"
proof -
  let ?s = "schedules sess ! k"
  let ?ss1 = "(schedules sess)[k := ?s\<lparr>completed := Some True\<rparr>]"
  have upd: "update_schedule i (\<lambda>s. s\<lparr>completed := Some True\<rparr>) (schedules sess) = Inr ?ss1"
    by (rule update_schedule_at[OF k i first])
  have nth: "?ss1 ! k = ?s\<lparr>completed := Some True\<rparr>" using k by simp
  have ab1: "get_flag (auto_blocked (?ss1 ! k))" using ab nth by simp
  have nk: "\<not> length (schedules sess) \<le> k" using k by simp
  show ?thesis
  proof (intro conjI impI)
    assume a: "get_flag (auto_block_triggered ?s) \<and> is_blocking_active b env \<and> is_admin env
               \<and> hosts_writable env"
    then have ok: "u_success (fst (unblock_websites b env))"
      using unblock_succeeds blocking_active_readable by blast
    obtain result env' where u: "unblock_websites b env = (result, env')"
      by (cases "unblock_websites b env")
    have c: "complete_schedule b k (sess, env)
          = Inr (sess\<lparr>schedules := map clear_auto_block ?ss1, blocking_active := False,
                       blocking_reason := None\<rparr>, env')"
      using a ok u ab1 nk i upd
      by (simp add: complete_schedule_def lookup_def Let_def del: nth_list_update_eq)
    have "map clear_auto_block ?ss1 ! k = clear_auto_block (?s\<lparr>completed := Some True\<rparr>)"
      using k by simp
    also have "\<dots> = ?s\<lparr>completed := Some True, auto_block_triggered := Some False,
                        auto_blocked := Some False\<rparr>"
      using a by (simp add: clear_auto_block_def)
    finally show "\<exists>sess' env'. complete_schedule b k (sess, env) = Inr (sess', env')
               \<and> schedules sess' ! k
                   = ?s\<lparr>completed := Some True,
                        auto_block_triggered := Some False, auto_blocked := Some False\<rparr>"
      using c by simp
  next
    assume a: "\<not> is_blocking_active b env \<or> \<not> is_admin env \<or> \<not> hosts_writable env"
    show "\<exists>sess'. complete_schedule b k (sess, env) = Inr (sess', env)
               \<and> schedules sess' ! k = ?s\<lparr>completed := Some True\<rparr>"
    proof (cases "is_blocking_active b env")
      case False
      then have "complete_schedule b k (sess, env) = Inr (sess\<lparr>schedules := ?ss1\<rparr>, env)"
        using nk i upd by (simp add: complete_schedule_def lookup_def Let_def del: nth_list_update_eq)
      then show ?thesis using nth by simp
    next
      case True
      with a have "\<not> is_admin env \<or> \<not> hosts_writable env" by simp
      from unblock_fails[OF this, of b]
      have f: "\<not> u_success (fst (unblock_websites b env))" "snd (unblock_websites b env) = env"
        by simp_all
      obtain result env' where u: "unblock_websites b env = (result, env')"
        by (cases "unblock_websites b env")
      have "complete_schedule b k (sess, env) = Inr (sess\<lparr>schedules := ?ss1\<rparr>, env)"
        using True f u ab1 nk i upd
        by (simp add: complete_schedule_def lookup_def Let_def del: nth_list_update_eq)
      then show ?thesis using nth by simp
    qed
  qed
qed

section \<open>Properties of the background service\<close>

lemma service_body_step:
  assumes "service_body now sent_at sv s = Inr (s', sv')"
  shows "\<exists>added. sent sv' = sent sv @ added
           \<and> (\<forall>c \<in> set added. \<exists>k. c = ScheduleAlert s k \<and> \<not> get_flag (started s))"
  using assms
  unfolding service_body_def Let_def
  by (auto split: if_splits sum.splits option.splits simp: service_send_def lookup_def)

lemma service_started:
  assumes "\<forall>t \<in> set loaded. sid t = Some i \<longrightarrow> get_flag (started t)"
  shows "\<exists>added. sent (snd (check_and_notify now sent_at loaded sv)) = sent sv @ added
           \<and> (\<forall>c \<in> set added. \<forall>s k. c = ScheduleAlert s k \<longrightarrow> sid s \<noteq> Some i)"
proof -
  have "\<exists>added. sent (snd (snd (for_each (service_body now sent_at) loaded sv))) = sent sv @ added
          \<and> (\<forall>c \<in> set added. \<forall>s k. c = ScheduleAlert s k \<longrightarrow> sid s \<noteq> Some i)"
  proof (rule for_each_added)
    fix t a b t'
    assume t: "t \<in> set loaded" and b: "service_body now sent_at a t = Inr (t', b)"
    from service_body_step[OF b]
    obtain added where ad: "sent b = sent a @ added"
      "\<forall>c \<in> set added. \<exists>k. c = ScheduleAlert t k \<and> \<not> get_flag (started t)" by auto
    have "\<forall>c \<in> set added. \<forall>s k. c = ScheduleAlert s k \<longrightarrow> sid s \<noteq> Some i"
      using ad(2) assms t by auto
    with ad(1) show "\<exists>added. sent b = sent a @ added
          \<and> (\<forall>c \<in> set added. \<forall>s k. c = ScheduleAlert s k \<longrightarrow> sid s \<noteq> Some i)" by blast
  qed
  then show ?thesis
    by (cases "for_each (service_body now sent_at) loaded sv")
      (auto simp: check_and_notify_def)
qed








section \<open>Properties of the website blocker\<close>


lemma str_in_sublist: "str_in m h \<longleftrightarrow> sublist m h"
  by (induction h) (auto simp: sublist_Cons_right)

lemma concat_readlines [simp]: "concat (readlines s) = s"
  by (induction s) (auto split: list.splits)

lemma readlines_eq_Nil [simp]: "readlines s = [] \<longleftrightarrow> s = []"
  by (cases s) (auto split: list.splits)

lemma readlines_append: "nl_terminated a \<Longrightarrow> readlines (a @ b) = readlines a @ readlines b"
proof (induction a)
  case Nil then show ?case by simp
next
  case (Cons c cs)
  show ?case
  proof (cases "cs = []")
    case True
    with Cons.prems show ?thesis by (simp add: nl_terminated_def)
  next
    case False
    with Cons.prems have "nl_terminated cs" by (simp add: nl_terminated_def)
    from Cons.IH[OF this] False show ?thesis
      by (cases "readlines cs") (auto split: list.splits)
  qed
qed

lemma readlines_sublist: "l \<in> set (readlines s) \<Longrightarrow> sublist l s"
proof -
  assume "l \<in> set (readlines s)"
  then obtain a b where "readlines s = a @ l # b" by (auto dest: split_list)
  then have "concat (readlines s) = concat a @ l @ concat b" by simp
  then show ?thesis unfolding sublist_def by (simp only: concat_readlines) blast
qed

lemma sublist_snoc_char: "sublist m (h @ [c]) \<Longrightarrow> c \<notin> set m \<Longrightarrow> sublist m h"
  by (auto simp: sublist_append sublist_Cons_right prefix_Cons suffix_imp_sublist)

lemma readlines_single: "CHR 0x0A \<notin> set s \<Longrightarrow> readlines (s @ nl) = [s @ nl]"
  by (induction s) (auto simp: nl_def)

lemma unblock_loop_keep:
  "\<forall>l \<in> set ls. \<not> str_in (marker_start b) l \<and> \<not> str_in (marker_end b) l \<Longrightarrow>
   unblock_loop b False acc (ls @ rest) = unblock_loop b False (acc @ ls) rest"
  by (induction ls arbitrary: acc) auto

lemma unblock_loop_skip:
  "\<forall>l \<in> set ls. \<not> str_in (marker_end b) l \<Longrightarrow>
   unblock_loop b True acc (ls @ rest) = unblock_loop b True acc rest"
  by (induction ls arbitrary: acc) auto

lemma nl_terminated_snoc: "nl_terminated (s @ nl)"
  by (simp add: nl_terminated_def nl_def)

lemma nl_terminated_append: "nl_terminated a \<Longrightarrow> nl_terminated b \<Longrightarrow> nl_terminated (a @ b)"
  by (cases "b = []") (auto simp: nl_terminated_def)

lemma nl_terminated_site_lines:
  "nl_terminated (concat (map (\<lambda>site. ip @ sep @ site @ nl) sites))"
proof (induction sites)
  case Nil then show ?case by (simp add: nl_terminated_def)
next
  case (Cons a sites)
  have "nl_terminated ((ip @ sep @ a) @ nl)" by (rule nl_terminated_snoc)
  from nl_terminated_append[OF this Cons] show ?case by simp
qed

lemma concat_blocking_entries:
  "concat (blocking_entries (WebsiteBlocker sites) stamp) =
     nl @ (''# START FOCUS MODE BLOCKING'' @ nl) @ skipped_text stamp sites
     @ (''# END FOCUS MODE BLOCKING'' @ nl)"
  by (simp add: blocking_entries_def WebsiteBlocker_def skipped_text_def)

lemma nl_terminated_skipped: "nl_terminated (skipped_text stamp sites)"
proof -
  have "nl_terminated ((''# Added by Focus Timer on '' @ stamp) @ nl)" by (rule nl_terminated_snoc)
  from nl_terminated_append[OF this nl_terminated_site_lines[of "''127.0.0.1''" "'' ''" sites]]
  show ?thesis unfolding skipped_text_def by simp
qed

lemma skipped_no_end:
  assumes "\<forall>site \<in> set sites. CHR ''#'' \<notin> set site" and "CHR ''#'' \<notin> set stamp"
  shows "\<not> sublist ''# END FOCUS MODE BLOCKING'' (skipped_text stamp sites)"
proof
  assume a: "sublist ''# END FOCUS MODE BLOCKING'' (skipped_text stamp sites)"
  define rest where "rest = '' Added by Focus Timer on '' @ stamp @ nl
     @ concat (map (\<lambda>site. ''127.0.0.1'' @ '' '' @ site @ nl) sites)"
  have eq: "skipped_text stamp sites = CHR ''#'' # rest"
    by (simp add: skipped_text_def rest_def)
  have norest: "CHR ''#'' \<notin> set rest"
    using assms by (auto simp: rest_def nl_def)
  from a have "prefix ''# END FOCUS MODE BLOCKING'' (CHR ''#'' # rest) \<or> sublist ''# END FOCUS MODE BLOCKING'' rest"
    by (simp add: eq sublist_Cons_right)
  then show False
  proof
    assume "prefix ''# END FOCUS MODE BLOCKING'' (CHR ''#'' # rest)"
    then show False by (simp add: rest_def)
  next
    assume "sublist ''# END FOCUS MODE BLOCKING'' rest"
    then have "set ''# END FOCUS MODE BLOCKING'' \<subseteq> set rest" by (rule set_mono_sublist)
    with norest show False by simp
  qed
qed

lemma block_unblock_hosts:
  assumes adm: "is_admin env" and rd: "hosts_readable env" and wr: "hosts_writable env"
    and nos: "\<not> str_in (marker_start (WebsiteBlocker sites)) (hosts env)"
    and noe: "\<not> str_in (marker_end (WebsiteBlocker sites)) (hosts env)"
    and sites: "\<forall>site \<in> set sites. CHR ''#'' \<notin> set site" and stamp: "CHR ''#'' \<notin> set stamp"
  shows "hosts (block_then_unblock (WebsiteBlocker sites) stamp env) = hosts env @ nl"
proof -
  let ?b = "WebsiteBlocker sites"
  let ?ms = "''# START FOCUS MODE BLOCKING''" and ?me = "''# END FOCUS MODE BLOCKING''"
  let ?h = "hosts env"
  let ?S = "skipped_text stamp sites"
  have ms: "marker_start ?b = ?ms" and me: "marker_end ?b = ?me" by (simp_all add: WebsiteBlocker_def)
  define env1 where "env1 = env\<lparr>hosts := ?h @ concat (blocking_entries ?b stamp)\<rparr>"
  have blk: "snd (block_websites ?b stamp env) = env1"
    using adm rd wr nos
    by (simp add: block_websites_def read_hosts_file_def is_blocking_active_def
        write_hosts_file_def env1_def)
  have h1: "hosts env1 = (?h @ nl) @ (?ms @ nl) @ ?S @ (?me @ nl)"
    by (simp add: env1_def concat_blocking_entries)
  have lines1: "readlines (hosts env1) = readlines (?h @ nl) @ [?ms @ nl] @ readlines ?S @ [?me @ nl]"
  proof -
    have "readlines (hosts env1) = readlines (?h @ nl) @ readlines ((?ms @ nl) @ ?S @ (?me @ nl))"
      unfolding h1 by (rule readlines_append) (rule nl_terminated_snoc)
    also have "readlines ((?ms @ nl) @ ?S @ (?me @ nl)) = readlines (?ms @ nl) @ readlines (?S @ (?me @ nl))"
      by (rule readlines_append) (rule nl_terminated_snoc)
    also have "readlines (?S @ (?me @ nl)) = readlines ?S @ readlines (?me @ nl)"
      by (rule readlines_append) (rule nl_terminated_skipped)
    also have "readlines (?ms @ nl) = [?ms @ nl]" by (rule readlines_single) simp
    also have "readlines (?me @ nl) = [?me @ nl]" by (rule readlines_single) simp
    finally show ?thesis by simp
  qed
  have keep: "\<forall>l \<in> set (readlines (?h @ nl)). \<not> str_in (marker_start ?b) l \<and> \<not> str_in (marker_end ?b) l"
  proof
    fix l assume "l \<in> set (readlines (?h @ nl))"
    then have sl: "sublist l (?h @ [CHR 0x0A])" using readlines_sublist by (simp add: nl_def)
    have "\<not> sublist ?ms l"
    proof
      assume "sublist ?ms l"
      from this sl have "sublist ?ms (?h @ [CHR 0x0A])" by (rule sublist_order.order_trans)
      then have "sublist ?ms ?h" by (rule sublist_snoc_char) simp
      with nos show False by (simp add: ms str_in_sublist)
    qed
    moreover have "\<not> sublist ?me l"
    proof
      assume "sublist ?me l"
      from this sl have "sublist ?me (?h @ [CHR 0x0A])" by (rule sublist_order.order_trans)
      then have "sublist ?me ?h" by (rule sublist_snoc_char) simp
      with noe show False by (simp add: me str_in_sublist)
    qed
    ultimately show "\<not> str_in (marker_start ?b) l \<and> \<not> str_in (marker_end ?b) l"
      by (simp add: ms me str_in_sublist)
  qed
  have skip: "\<forall>l \<in> set (readlines ?S). \<not> str_in (marker_end ?b) l"
  proof
    fix l assume "l \<in> set (readlines ?S)"
    then have "sublist l ?S" by (rule readlines_sublist)
    then show "\<not> str_in (marker_end ?b) l"
      using skipped_no_end[OF sites stamp] sublist_order.order_trans
      unfolding me str_in_sublist by blast
  qed
  have start_line: "str_in (marker_start ?b) (?ms @ nl)"
    by (simp add: ms nl_def)
  have end_line: "\<not> str_in (marker_start ?b) (?me @ nl)" "str_in (marker_end ?b) (?me @ nl)"
    by (simp_all add: ms me nl_def)
  have "unblock_loop ?b False [] (readlines (hosts env1)) =
        unblock_loop ?b False ([] @ readlines (?h @ nl)) ([?ms @ nl] @ readlines ?S @ [?me @ nl])"
    unfolding lines1 by (rule unblock_loop_keep[OF keep])
  also have "\<dots> = unblock_loop ?b True (readlines (?h @ nl)) (readlines ?S @ [?me @ nl])"
    using start_line by simp
  also have "\<dots> = unblock_loop ?b True (readlines (?h @ nl)) [?me @ nl]"
    by (rule unblock_loop_skip[OF skip])
  also have "\<dots> = readlines (?h @ nl)"
    using end_line by simp
  finally have loop: "unblock_loop ?b False [] (readlines (hosts env1)) = readlines (?h @ nl)" .
  have e1: "is_admin env1" "hosts_readable env1" "hosts_writable env1"
    using adm rd wr by (simp_all add: env1_def)
  have "hosts (snd (unblock_websites ?b env1)) = ?h @ nl"
    using e1 by (simp add: unblock_websites_def read_hosts_file_def write_hosts_file_def loop)
  then show ?thesis by (simp add: block_then_unblock_def blk)
qed

text \<open>
  Claim C10, as the code has it. On a hosts file that contains neither marker text, with
  privileges and both file operations succeeding, and no \<open>#\<close> in the site names or in the
  time stamp, \<^verbatim>\<open>block_websites\<close> followed by \<^verbatim>\<open>unblock_websites\<close> leaves the original
  text followed by one more newline: the blank line written in front of the start marker
  is not removed.
\<close>

theorem block_then_unblock_adds_newline:
  assumes "is_admin env" and "hosts_readable env" and "hosts_writable env"
    and "\<not> str_in (marker_start (WebsiteBlocker sites)) (hosts env)"
    and "\<not> str_in (marker_end (WebsiteBlocker sites)) (hosts env)"
    and "\<forall>site \<in> set sites. CHR ''#'' \<notin> set site" and "CHR ''#'' \<notin> set stamp"
  shows "hosts (block_then_unblock (WebsiteBlocker sites) stamp env) = hosts env @ nl"
  using assms by (rule block_unblock_hosts)

lemma example_env_ok:
  "is_admin example_env" "hosts_readable example_env" "hosts_writable example_env"
  "\<not> str_in (marker_start (WebsiteBlocker BLOCKED_SITES)) (hosts example_env)"
  "\<not> str_in (marker_end (WebsiteBlocker BLOCKED_SITES)) (hosts example_env)"
  "\<forall>site \<in> set BLOCKED_SITES. CHR ''#'' \<notin> set site" "CHR ''#'' \<notin> set example_stamp"
  by (simp_all add: example_env_def WebsiteBlocker_def BLOCKED_SITES_def example_stamp_def nl_def)

theorem block_then_unblock_adds_newline_witness:
  "hosts (block_then_unblock (WebsiteBlocker BLOCKED_SITES) example_stamp example_env)
     = ''127.0.0.1 localhost'' @ nl @ nl"
  using block_then_unblock_adds_newline[OF example_env_ok]
  by (simp add: example_env_def)

text \<open>
  The claim as stated (block then unblock restores exactly the original lines) fails on a
  hosts file with the single line \<^verbatim>\<open>127.0.0.1 localhost\<close>: a blank line is left behind.
\<close>

theorem block_then_unblock_not_identity:
  "readlines (hosts (block_then_unblock (WebsiteBlocker BLOCKED_SITES) example_stamp example_env))
     = readlines (hosts example_env) @ [nl]
   \<and> readlines (hosts (block_then_unblock (WebsiteBlocker BLOCKED_SITES) example_stamp example_env))
     \<noteq> readlines (hosts example_env)"
  using block_unblock_hosts[OF example_env_ok]
  by (simp add: example_env_def nl_def)

section \<open>The auto-block threshold\<close>

text \<open>
  Claim C1, as the code has it. Take a schedule dated today, not started and not completed,
  the only one with its id in a list of well-formed schedules, with no notification
  \<open>auto_block_<id>\<close> in the list yet. The evaluator of enhanced\_notifications.py, when its
  30 second gate lets it run, adds exactly one such notification and sets
  \<^verbatim>\<open>auto_block_triggered\<close> when \<open>now\<close> is more than 10 minutes past the start, and adds
  none and leaves the schedule alone when \<open>now\<close> is less than 10 minutes past it. The
  check of the schedule manager page does the first only while \<open>now\<close> is at least 10 and
  less than 11 minutes past the start (and \<^verbatim>\<open>auto_block_triggered\<close> is not set); before
  10 minutes and from 11 minutes on it adds none and leaves the schedule alone.
\<close>

theorem auto_block_threshold:
  assumes "list_all well_formed (schedules sess)"
    and "schedules sess = pre @ s # post"
    and "\<forall>t \<in> set pre \<union> set post. sid t \<noteq> Some i"
    and "sid s = Some i" and "sdate s = Some (date_of now)" and "start_time s = Some tm"
    and "\<not> get_flag (started s)" and "\<not> get_flag (completed s)"
    and "count_id (''auto_block_'' @ i) (notifications sess) = 0"
  shows "(check_due now sess \<and> minutes_until (date_of now) tm now < - 10 \<longrightarrow>
            count_id (''auto_block_'' @ i)
              (notifications (snd (check_enhanced_schedule_notifications desktop now sess))) = 1
            \<and> auto_block_triggered
                (schedules (snd (check_enhanced_schedule_notifications desktop now sess)) ! length pre)
                = Some True)
       \<and> (check_due now sess \<and> - 10 < minutes_until (date_of now) tm now \<longrightarrow>
            count_id (''auto_block_'' @ i)
              (notifications (snd (check_enhanced_schedule_notifications desktop now sess))) = 0
            \<and> schedules (snd (check_enhanced_schedule_notifications desktop now sess)) ! length pre = s)
       \<and> (- 11 < minutes_until (date_of now) tm now \<and> minutes_until (date_of now) tm now \<le> - 10
            \<and> \<not> get_flag (auto_block_triggered s) \<longrightarrow>
            count_id (''auto_block_'' @ i)
              (notifications (fst (snd (page_check blocker desktop stamp now (sess, env))))) = 1
            \<and> auto_block_triggered
                (schedules (fst (snd (page_check blocker desktop stamp now (sess, env)))) ! length pre)
                = Some True)
       \<and> (- 10 < minutes_until (date_of now) tm now \<or> minutes_until (date_of now) tm now \<le> - 11 \<longrightarrow>
            count_id (''auto_block_'' @ i)
              (notifications (fst (snd (page_check blocker desktop stamp now (sess, env))))) = 0
            \<and> schedules (fst (snd (page_check blocker desktop stamp now (sess, env)))) ! length pre = s)"
  using enhanced_auto_block[OF assms(1) _ assms(2-9), of desktop]
    page_auto_block[OF assms(1-9), of blocker desktop stamp env]
  by blast

lemma study_facts:
  "list_all well_formed (schedules study_session)"
  "schedules study_session = [] @ study # []"
  "\<forall>t \<in> set [] \<union> set []. sid t \<noteq> Some ''schedule_0_1000.5''"
  "sid study = Some ''schedule_0_1000.5''"
  "start_time study = Some (hms 14 0 0)"
  "\<not> get_flag (started study)" "\<not> get_flag (completed study)"
  "count_id (''auto_block_'' @ ''schedule_0_1000.5'') (notifications study_session) = 0"
  by (simp_all add: study_session_def study_def new_schedule_def well_formed_def get_flag_def count_id_def)

lemma study_dates:
  "sdate study = Some (date_of (combine 100 (hms 14 10 1)))"
  "sdate study = Some (date_of (combine 100 (hms 14 9 59)))"
  "sdate study = Some (date_of (combine 100 (hms 14 12 0)))"
  by (simp_all add: study_def new_schedule_def date_of_def combine_def hms_def us_per_day_def)

lemma study_minutes:
  "minutes_until (date_of (combine 100 (hms 14 10 1))) (hms 14 0 0) (combine 100 (hms 14 10 1)) < - 10"
  "- 11 < minutes_until (date_of (combine 100 (hms 14 10 1))) (hms 14 0 0) (combine 100 (hms 14 10 1))"
  "- 10 < minutes_until (date_of (combine 100 (hms 14 9 59))) (hms 14 0 0) (combine 100 (hms 14 9 59))"
  "minutes_until (date_of (combine 100 (hms 14 12 0))) (hms 14 0 0) (combine 100 (hms 14 12 0)) \<le> - 11"
  by (simp_all add: minutes_until_def total_seconds_def date_of_def combine_def hms_def us_per_day_def)

lemma study_due: "check_due now study_session"
  by (simp add: check_due_def study_session_def td_seconds_def)

lemma study_untriggered: "\<not> get_flag (auto_block_triggered study)"
  by (simp add: study_def new_schedule_def get_flag_def)

theorem auto_block_threshold_witness:
  "count_id ''auto_block_schedule_0_1000.5''
     (notifications (snd (check_enhanced_schedule_notifications True (combine 100 (hms 14 10 1))
        study_session))) = 1
   \<and> auto_block_triggered
       (schedules (snd (check_enhanced_schedule_notifications True (combine 100 (hms 14 10 1))
          study_session)) ! 0) = Some True
   \<and> count_id ''auto_block_schedule_0_1000.5''
       (notifications (fst (snd (page_check (WebsiteBlocker BLOCKED_SITES) True example_stamp
          (combine 100 (hms 14 10 1)) (study_session, example_env))))) = 1
   \<and> count_id ''auto_block_schedule_0_1000.5''
       (notifications (snd (check_enhanced_schedule_notifications True (combine 100 (hms 14 9 59))
          study_session))) = 0
   \<and> count_id ''auto_block_schedule_0_1000.5''
       (notifications (fst (snd (page_check (WebsiteBlocker BLOCKED_SITES) True example_stamp
          (combine 100 (hms 14 9 59)) (study_session, example_env))))) = 0"
  using auto_block_threshold[OF study_facts(1-4) study_dates(1) study_facts(5-8),
      of True "WebsiteBlocker BLOCKED_SITES" example_stamp example_env]
    auto_block_threshold[OF study_facts(1-4) study_dates(2) study_facts(5-8),
      of True "WebsiteBlocker BLOCKED_SITES" example_stamp example_env]
    study_minutes study_due study_untriggered
  by simp

text \<open>
  The claim as stated fails on the page's check: twelve minutes after the start of a task
  that was not started, the check triggers no auto-block.
\<close>

theorem page_check_late_counterexample:
  "minutes_until 100 (hms 14 0 0) (combine 100 (hms 14 12 0)) < - 10
   \<and> count_id ''auto_block_schedule_0_1000.5''
       (notifications (fst (snd (page_check (WebsiteBlocker BLOCKED_SITES) True example_stamp
          (combine 100 (hms 14 12 0)) (study_session, example_env))))) = 0
   \<and> auto_block_triggered
       (schedules (fst (snd (page_check (WebsiteBlocker BLOCKED_SITES) True example_stamp
          (combine 100 (hms 14 12 0)) (study_session, example_env)))) ! 0) = None"
proof -
  have m: "minutes_until 100 (hms 14 0 0) (combine 100 (hms 14 12 0)) < - 10"
    by (simp add: minutes_until_def total_seconds_def combine_def hms_def us_per_day_def)
  have "count_id ''auto_block_schedule_0_1000.5''
       (notifications (fst (snd (page_check (WebsiteBlocker BLOCKED_SITES) True example_stamp
          (combine 100 (hms 14 12 0)) (study_session, example_env))))) = 0
     \<and> schedules (fst (snd (page_check (WebsiteBlocker BLOCKED_SITES) True example_stamp
          (combine 100 (hms 14 12 0)) (study_session, example_env)))) ! 0 = study"
    using page_auto_block[OF study_facts(1-4) study_dates(3) study_facts(5-8),
      of "WebsiteBlocker BLOCKED_SITES" True example_stamp example_env] study_minutes(4)
    by simp
  then show ?thesis using m by (simp add: study_def new_schedule_def)
qed

section \<open>Idempotent emission\<close>

text \<open>
  Claim C2. Whatever the clock readings of a series of invocations are (in particular when
  all of them lie inside the time window of one event kind), the evaluator of
  enhanced\_notifications.py never brings the number of notifications with a given id
  above one: every branch appends only after finding no notification with its id. The same
  holds for the evaluator of config.py and the ids of its three id-guarded branches
  (\<open>notif_10min_\<close>, \<open>notif_5min_\<close>, \<open>notif_start_\<close>: every id that does not begin with
  \<open>missed_\<close>).
\<close>

theorem idempotent_emission:
  assumes "count_id notif_id (notifications sess) \<le> 1"
  shows "count_id notif_id (notifications (run_enhanced desktop nows sess)) \<le> 1
       \<and> (\<not> prefix ''missed_'' notif_id \<longrightarrow>
            count_id notif_id (notifications (run_config nows sess)) \<le> 1)"
  using assms run_enhanced_count[of notif_id sess desktop nows] run_config_count[of notif_id sess nows]
  by blast

lemma empty_count:
  "count_id X (notifications study_session) \<le> 1"
  "count_id X (notifications study_session_checked) \<le> 1"
  by (simp_all add: study_session_def study_session_checked_def count_id_def)

lemma run_enhanced_example:
  "map n_id (notifications (run_enhanced True around_ten_before study_session))
     = [''10min_schedule_0_1000.5'']"
  by code_simp

lemma run_config_example:
  "map n_id (notifications (run_config around_ten_before study_session_checked))
     = [''notif_10min_schedule_0_1000.5'']"
  by code_simp

theorem idempotent_emission_witness:
  "count_id ''10min_schedule_0_1000.5''
     (notifications (run_enhanced True around_ten_before study_session)) \<le> 1
   \<and> map n_id (notifications (run_enhanced True around_ten_before study_session))
       = [''10min_schedule_0_1000.5'']
   \<and> count_id ''notif_10min_schedule_0_1000.5''
       (notifications (run_config around_ten_before study_session_checked)) \<le> 1
   \<and> map n_id (notifications (run_config around_ten_before study_session_checked))
       = [''notif_10min_schedule_0_1000.5'']"
  using idempotent_emission[of "''10min_schedule_0_1000.5''" study_session True around_ten_before]
    idempotent_emission[of "''notif_10min_schedule_0_1000.5''" study_session_checked True
      around_ten_before]
    empty_count run_enhanced_example run_config_example
  by simp

section \<open>A started schedule is no longer reported as missed\<close>

text \<open>
  Claim C3. When every schedule with the id \<open>i\<close> has \<^verbatim>\<open>started\<close> true, an invocation at any
  clock reading of the evaluator of enhanced\_notifications.py appends, for that id, only
  notifications of the two kinds sent before the start (ten and five minutes before), so
  none of type \<open>auto_block\<close>, \<open>missed_5min\<close>, \<open>just_missed\<close> or \<open>missed_10min\<close>; the check
  of the schedule manager page likewise appends only its types \<open>upcoming\<close> and \<open>soon\<close>, none
  of its types \<open>critical\<close>, \<open>warning\<close> and \<open>late\<close>; and the background service hands no
  notification at all for such a schedule to the desktop.
\<close>

theorem started_suppresses_missed:
  assumes "\<forall>t \<in> set (schedules sess). sid t = Some i \<longrightarrow> get_flag (started t)"
    and "\<forall>t \<in> set loaded. sid t = Some i \<longrightarrow> get_flag (started t)"
  shows "(\<exists>added. notifications (snd (check_enhanced_schedule_notifications desktop now sess))
                   = notifications sess @ added
           \<and> (\<forall>n \<in> set added. n_schedule_id n = i \<longrightarrow>
                  n_type n = ''10min_warning'' \<or> n_type n = ''5min_warning''))
       \<and> (\<exists>added. notifications (fst (snd (page_check blocker desktop stamp now (sess, env))))
                   = notifications sess @ added
           \<and> (\<forall>n \<in> set added. n_schedule_id n = i \<longrightarrow>
                  n_type n = ''upcoming'' \<or> n_type n = ''soon''))
       \<and> (\<exists>added. sent (snd (check_and_notify now sent_at loaded sv)) = sent sv @ added
           \<and> (\<forall>c \<in> set added. \<forall>s k. c = ScheduleAlert s k \<longrightarrow> sid s \<noteq> Some i))"
  using enhanced_started[OF assms(1)] page_started[OF assms(1)] service_started[OF assms(2)]
  by blast

lemma started_session_facts:
  "\<forall>t \<in> set (schedules started_session). sid t = Some ''schedule_0_1000.5'' \<longrightarrow> get_flag (started t)"
  "\<forall>t \<in> set [study_started]. sid t = Some ''schedule_0_1000.5'' \<longrightarrow> get_flag (started t)"
  by (simp_all add: started_session_def study_started_def get_flag_def)

lemma started_session_runs:
  "notifications (snd (check_enhanced_schedule_notifications True (combine 100 (hms 14 12 0))
      started_session)) = []"
  "notifications (fst (snd (page_check (WebsiteBlocker BLOCKED_SITES) True example_stamp
      (combine 100 (hms 14 10 30)) (started_session, example_env)))) = []"
  "sent (snd (check_and_notify (combine 100 (hms 14 12 0)) (combine 100 (hms 14 12 1))
      [study_started] empty_service)) = []"
  by code_simp+

theorem started_suppresses_missed_witness:
  "(\<exists>added. notifications (snd (check_enhanced_schedule_notifications True
                (combine 100 (hms 14 12 0)) started_session))
                   = notifications started_session @ added
           \<and> (\<forall>n \<in> set added. n_schedule_id n = ''schedule_0_1000.5'' \<longrightarrow>
                  n_type n = ''10min_warning'' \<or> n_type n = ''5min_warning''))
   \<and> notifications (snd (check_enhanced_schedule_notifications True (combine 100 (hms 14 12 0))
        started_session)) = []
   \<and> sent (snd (check_and_notify (combine 100 (hms 14 12 0)) (combine 100 (hms 14 12 1))
        [study_started] empty_service)) = []"
  using started_suppresses_missed[OF started_session_facts, of True "combine 100 (hms 14 12 0)"]
    started_session_runs
  by blast

section \<open>Records with missing keys\<close>





section \<open>Display order of the notifications\<close>

lemma insort_key_lex:
  fixes f :: "'a \<Rightarrow> nat"
  assumes "sorted_wrt (\<lambda>a b. f a < f b \<or> (f a = f b \<and> T a b)) ys"
    and "\<forall>y \<in> set ys. T x y"
  shows "sorted_wrt (\<lambda>a b. f a < f b \<or> (f a = f b \<and> T a b)) (insort_key f x ys)"
  using assms
proof (induction ys)
  case Nil
  then show ?case by simp
next
  case (Cons y ys)
  show ?case
  proof (cases "f x \<le> f y")
    case True
    have "\<forall>z \<in> set (y # ys). f x < f z \<or> (f x = f z \<and> T x z)"
    proof
      fix z assume z: "z \<in> set (y # ys)"
      have "f y \<le> f z" using Cons.prems(1) z by auto
      with True have "f x \<le> f z" by simp
      moreover have "T x z" using Cons.prems(2) z by auto
      ultimately show "f x < f z \<or> (f x = f z \<and> T x z)" by auto
    qed
    with True Cons.prems(1) show ?thesis by simp
  next
    case False
    have "sorted_wrt (\<lambda>a b. f a < f b \<or> (f a = f b \<and> T a b)) (insort_key f x ys)"
      using Cons.IH Cons.prems by simp
    moreover have "\<forall>z \<in> set (insort_key f x ys). f y < f z \<or> (f y = f z \<and> T y z)"
      using Cons.prems(1) False by (auto simp: set_insort_key)
    ultimately show ?thesis using False by simp
  qed
qed

lemma sort_key_lex:
  fixes f :: "'a \<Rightarrow> nat"
  assumes "sorted_wrt T xs"
  shows "sorted_wrt (\<lambda>a b. f a < f b \<or> (f a = f b \<and> T a b)) (sort_key f xs)"
  using assms
proof (induction xs)
  case Nil
  then show ?case by simp
next
  case (Cons x xs)
  then show ?case by (auto intro!: insort_key_lex)
qed

lemma sorted_wrt_filter: "sorted_wrt T xs \<Longrightarrow> sorted_wrt T (filter P xs)"
  by (induction xs) auto

lemma sorted_notifs_lex:
  assumes "sorted_wrt (\<lambda>a b. n_timestamp a \<le> n_timestamp b) ns"
  shows "sorted_wrt shown_before (sorted_notifs ns)"
proof -
  have "sorted_wrt (\<lambda>a b. n_timestamp a \<le> n_timestamp b) (unread_notifs ns)"
    unfolding unread_notifs_def using assms by (rule sorted_wrt_filter)
  from sort_key_lex[OF this, of "\<lambda>n. type_priority (n_type n)"]
  show ?thesis unfolding sorted_notifs_def shown_before_def[abs_def] .
qed

text \<open>
  Claim C8, as the code has it. The notifications shown are the unread ones, each exactly
  once, in ascending order of the priority number of their type: critical, warning, late,
  start, soon, upcoming, and any other type last. Warning and late are two levels, not
  one. Notifications of equal priority keep the order they have in the notification list;
  when the list stands in the order of the timestamps, the display is therefore ordered by
  priority and, within a priority, by timestamp with the oldest first. Types upcoming,
  critical, soon are shown as critical, soon, upcoming.
\<close>

theorem display_order:
  "mset (sorted_notifs ns) = mset (unread_notifs ns)
   \<and> sorted (map (\<lambda>n. type_priority (n_type n)) (sorted_notifs ns))
   \<and> filter (\<lambda>n. type_priority (n_type n) = k) (sorted_notifs ns)
       = filter (\<lambda>n. type_priority (n_type n) = k) (unread_notifs ns)
   \<and> (sorted_wrt (\<lambda>a b. n_timestamp a \<le> n_timestamp b) ns
        \<longrightarrow> sorted_wrt shown_before (sorted_notifs ns))
   \<and> map n_type (sorted_notifs [example_notification ''upcoming'' 1,
        example_notification ''critical'' 2, example_notification ''soon'' 3])
       = [''critical'', ''soon'', ''upcoming'']"
proof -
  have "map n_type (sorted_notifs [example_notification ''upcoming'' 1,
        example_notification ''critical'' 2, example_notification ''soon'' 3])
       = [''critical'', ''soon'', ''upcoming'']"
    by code_simp
  then show ?thesis
    using sorted_notifs_lex[of ns]
    by (simp add: sorted_notifs_def sort_key_stable sorted_sort_key)
qed

lemma example_chronological:
  "sorted_wrt (\<lambda>a b. n_timestamp a \<le> n_timestamp b)
     [example_notification ''late'' 1, example_notification ''warning'' 2,
      example_notification ''warning'' 3]"
  by (simp add: example_notification_def)

theorem display_order_witness:
  "sorted_wrt shown_before (sorted_notifs
     [example_notification ''late'' 1, example_notification ''warning'' 2,
      example_notification ''warning'' 3])
   \<and> sorted_notifs
     [example_notification ''late'' 1, example_notification ''warning'' 2,
      example_notification ''warning'' 3]
     = [example_notification ''warning'' 2, example_notification ''warning'' 3,
        example_notification ''late'' 1]"
proof -
  have "sorted_notifs
     [example_notification ''late'' 1, example_notification ''warning'' 2,
      example_notification ''warning'' 3]
     = [example_notification ''warning'' 2, example_notification ''warning'' 3,
        example_notification ''late'' 1]"
    by (simp add: sorted_notifs_def unread_notifs_def example_notification_def type_priority_def)
  then show ?thesis
    using display_order[of "[example_notification ''late'' 1, example_notification ''warning'' 2,
      example_notification ''warning'' 3]"] example_chronological
    by simp
qed

text \<open>
  The claim as stated puts warning and late on one level with the older notification
  first. The code shows a warning in front of an older late notification.
\<close>

theorem warning_shown_before_older_late:
  "sorted_notifs [example_notification ''late'' 1, example_notification ''warning'' 2]
     = [example_notification ''warning'' 2, example_notification ''late'' 1]
   \<and> \<not> sorted_wrt spec_before
        (sorted_notifs [example_notification ''late'' 1, example_notification ''warning'' 2])"
proof -
  have e: "sorted_notifs [example_notification ''late'' 1, example_notification ''warning'' 2]
     = [example_notification ''warning'' 2, example_notification ''late'' 1]"
    by (simp add: sorted_notifs_def unread_notifs_def example_notification_def type_priority_def)
  show ?thesis
    unfolding e by (simp add: spec_before_def spec_tier_def example_notification_def)
qed

section \<open>Completing an auto-blocked schedule\<close>

text \<open>
  Claim C7, as the code has it, for the button ``Complete'' of the tab of today's tasks.
  Take a schedule with \<^verbatim>\<open>auto_blocked\<close> true that \<^verbatim>\<open>update_schedule\<close> finds under its id.
  Marking it completed with that button resets \<^verbatim>\<open>auto_block_triggered\<close> and
  \<^verbatim>\<open>auto_blocked\<close> when \<^verbatim>\<open>auto_block_triggered\<close> is true, the hosts file holds the
  blocking section and \<^verbatim>\<open>unblock_websites\<close> succeeds (privileges, writable hosts file).
  When the hosts file holds no blocking section or the unblocking fails, the schedule is
  marked completed and both flags stay as they were.
\<close>

theorem complete_resets_flags:
  assumes "k < length (schedules sess)" and "sid (schedules sess ! k) = Some i"
    and "\<forall>j < k. \<exists>i'. sid (schedules sess ! j) = Some i' \<and> i' \<noteq> i"
    and "get_flag (auto_blocked (schedules sess ! k))"
  shows "(get_flag (auto_block_triggered (schedules sess ! k))
          \<and> is_blocking_active b env \<and> is_admin env \<and> hosts_writable env \<longrightarrow>
            (\<exists>sess' env'. complete_schedule b k (sess, env) = Inr (sess', env')
               \<and> schedules sess' ! k
                   = (schedules sess ! k)\<lparr>completed := Some True,
                        auto_block_triggered := Some False, auto_blocked := Some False\<rparr>))
       \<and> (\<not> is_blocking_active b env \<or> \<not> is_admin env \<or> \<not> hosts_writable env \<longrightarrow>
            (\<exists>sess'. complete_schedule b k (sess, env) = Inr (sess', env)
               \<and> schedules sess' ! k = (schedules sess ! k)\<lparr>completed := Some True\<rparr>))"
  using assms by (rule complete_schedule_flags)

lemma blocked_session_facts:
  "0 < length (schedules blocked_session)"
  "sid (schedules blocked_session ! 0) = Some ''schedule_0_1000.5''"
  "\<forall>j < 0. \<exists>i'. sid (schedules blocked_session ! j) = Some i' \<and> i' \<noteq> ''schedule_0_1000.5''"
  "get_flag (auto_blocked (schedules blocked_session ! 0))"
  "get_flag (auto_block_triggered (schedules blocked_session ! 0))"
  "schedules blocked_session = [blocked_task]"
  by simp_all code_simp+

lemma blocked_env_facts:
  "is_blocking_active (WebsiteBlocker BLOCKED_SITES) blocked_env"
  "is_admin blocked_env" "hosts_writable blocked_env"
  by code_simp+

theorem complete_resets_flags_witness:
  "\<exists>sess' env'. complete_schedule (WebsiteBlocker BLOCKED_SITES) 0 (blocked_session, blocked_env)
       = Inr (sess', env')
     \<and> schedules sess' ! 0
         = (schedules blocked_session ! 0)\<lparr>completed := Some True,
              auto_block_triggered := Some False, auto_blocked := Some False\<rparr>"
  using complete_resets_flags[OF blocked_session_facts(1-4), of "WebsiteBlocker BLOCKED_SITES"
      blocked_env] blocked_session_facts(5) blocked_env_facts(1-3)
  by blast

text \<open>
  The claim as stated fails when the blocking section is no longer in the hosts file. The
  page auto-blocks the task ``Study'' ten and a half minutes after its start; the user
  unblocks with the button of the sidebar, which leaves the flags of the task alone; the
  button ``Complete'' then finds no blocking to undo, marks the task completed and leaves
  both flags true.
\<close>

theorem complete_after_unblock:
  "schedules blocked_session = [blocked_task]
   \<and> auto_blocked blocked_task = Some True
   \<and> auto_block_triggered blocked_task = Some True
   \<and> unblock_all_now (WebsiteBlocker BLOCKED_SITES) (blocked_session, blocked_env)
       = (blocked_session\<lparr>blocking_active := False\<rparr>, unblocked_env)
   \<and> complete_schedule (WebsiteBlocker BLOCKED_SITES) 0
         (blocked_session\<lparr>blocking_active := False\<rparr>, unblocked_env)
       = Inr (blocked_session\<lparr>schedules := [blocked_task\<lparr>completed := Some True\<rparr>],
                              blocking_active := False\<rparr>,
              unblocked_env)
   \<and> auto_blocked (blocked_task\<lparr>completed := Some True\<rparr>) = Some True
   \<and> auto_block_triggered (blocked_task\<lparr>completed := Some True\<rparr>) = Some True"
proof -
  have s: "schedules blocked_session = [blocked_task]"
    by code_simp
  have u: "unblock_all_now (WebsiteBlocker BLOCKED_SITES) (blocked_session, blocked_env)
     = (blocked_session\<lparr>blocking_active := False\<rparr>, unblocked_env)"
    by code_simp
  have e: "complete_schedule (WebsiteBlocker BLOCKED_SITES) 0
         (blocked_session\<lparr>blocking_active := False\<rparr>, unblocked_env)
       = Inr (blocked_session\<lparr>schedules := [blocked_task\<lparr>completed := Some True\<rparr>],
                              blocking_active := False\<rparr>,
              unblocked_env)"
    by code_simp
  have f: "auto_blocked blocked_task = Some True"
    "auto_block_triggered blocked_task = Some True"
    "auto_blocked (blocked_task\<lparr>completed := Some True\<rparr>) = Some True"
    "auto_block_triggered (blocked_task\<lparr>completed := Some True\<rparr>) = Some True"
    by (simp_all add: blocked_task_def)
  show ?thesis using s u e f by blast
qed

section \<open>Properties of the auto-block triggers\<close>

lemma block_fails:
  assumes "\<not> success (fst (block_websites b stamp env))"
  shows "snd (block_websites b stamp env) = env"
  using assms
  by (auto simp: block_websites_def block_failed_def write_hosts_file_def
      split: if_splits option.splits)

lemma not_admin_block_fails: "\<not> is_admin env \<Longrightarrow> \<not> success (fst (block_websites b stamp env))"
  by (simp add: block_websites_def block_failed_def)

lemma for_each_map:
  assumes "\<And>s. s \<in> set ss \<Longrightarrow> body st s = Inr (f s, st)"
  shows "for_each body ss st = (None, map f ss, st)"
  using assms by (induction ss) auto

lemma handle_body_fails:
  assumes "\<not> success (fst (block_websites b stamp env))" and "title s \<noteq> None"
  shows "handle_body b desktop stamp executed ((sess, bl), env) s
           = Inr (handle_on_failure s, ((sess, bl), env))"
proof -
  obtain result env' where r: "block_websites b stamp env = (result, env')"
    by (cases "block_websites b stamp env")
  with assms(1) block_fails[OF assms(1)] have "\<not> success result" "env' = env" by simp_all
  with r assms(2) show ?thesis
    by (auto simp: handle_body_def handle_on_failure_def lookup_def)
qed

lemma missed_loop_fails:
  assumes "\<not> success (fst (block_websites b stamp env))"
  shows "missed_loop b desktop stamp ss ((sess, bl), env)
           = (None, map (missed_on_failure env) ss, ((sess, bl), env))"
proof (induction ss)
  case Nil
  then show ?case by simp
next
  case (Cons s ss)
  obtain result env' where r: "block_websites b stamp env = (result, env')"
    by (cases "block_websites b stamp env")
  with assms block_fails[OF assms] have "\<not> success result" "env' = env" by simp_all
  with r Cons show ?case by (simp add: missed_on_failure_def)
qed

lemma triggers_fail:
  assumes f: "\<not> success (fst (block_websites b stamp env))"
    and wf: "list_all well_formed (schedules sess)"
  shows "handle_auto_blocking b desktop stamp executed (sess, env)
           = (Inr \<lparr>r_success = False, r_blocked_schedules = []\<rparr>,
              sess\<lparr>schedules := map handle_on_failure (schedules sess)\<rparr>, env)"
    and "auto_block_for_missed_schedules b desktop stamp (sess, env)
           = (Inr \<lparr>r_success = False, r_blocked_schedules = []\<rparr>,
              sess\<lparr>schedules := map (missed_on_failure env) (schedules sess)\<rparr>, env)"
proof -
  have "for_each (handle_body b desktop stamp executed) (schedules sess) ((sess, []), env)
          = (None, map handle_on_failure (schedules sess), ((sess, []), env))"
  proof (rule for_each_map)
    fix s assume "s \<in> set (schedules sess)"
    with wf have "title s \<noteq> None" by (simp add: list_all_iff well_formed_def)
    with f show "handle_body b desktop stamp executed ((sess, []), env) s
                   = Inr (handle_on_failure s, ((sess, []), env))"
      by (rule handle_body_fails)
  qed
  then show "handle_auto_blocking b desktop stamp executed (sess, env)
           = (Inr \<lparr>r_success = False, r_blocked_schedules = []\<rparr>,
              sess\<lparr>schedules := map handle_on_failure (schedules sess)\<rparr>, env)"
    by (simp add: handle_auto_blocking_def)
  show "auto_block_for_missed_schedules b desktop stamp (sess, env)
           = (Inr \<lparr>r_success = False, r_blocked_schedules = []\<rparr>,
              sess\<lparr>schedules := map (missed_on_failure env) (schedules sess)\<rparr>, env)"
    by (simp add: auto_block_for_missed_schedules_def missed_loop_fails[OF f])
qed

section \<open>A failing blocker\<close>

text \<open>
  Claim C6, as the code has it. Take a schedule with \<^verbatim>\<open>auto_block_triggered\<close> true and
  \<^verbatim>\<open>auto_blocked\<close> not true, in a list of schedules that hold their keys, and let
  \<^verbatim>\<open>block_websites\<close> fail (no privileges, or a hosts file that cannot be read or written).
  \<^verbatim>\<open>handle_auto_blocking\<close> reports no success, leaves session and hosts file alone and
  sets \<^verbatim>\<open>auto_block_triggered\<close> of the schedule to false: the trigger is withdrawn, and a
  later run passes the schedule by whatever the blocker could do then.
  \<^verbatim>\<open>auto_block_for_missed_schedules\<close> reports no success either and keeps the trigger:
  the schedule stays as it was, except that without privileges \<^verbatim>\<open>auto_blocked\<close> is written
  as false; a later run with a blocker that succeeds marks it \<^verbatim>\<open>auto_blocked\<close>.
\<close>

theorem failed_block_outcome:
  assumes "\<not> success (fst (block_websites b stamp env))"
    and "list_all well_formed (schedules sess)"
    and "k < length (schedules sess)"
    and "get_flag (auto_block_triggered (schedules sess ! k))"
    and "\<not> get_flag (auto_blocked (schedules sess ! k))"
  shows "handle_auto_blocking b desktop stamp executed (sess, env)
           = (Inr \<lparr>r_success = False, r_blocked_schedules = []\<rparr>,
              sess\<lparr>schedules := map handle_on_failure (schedules sess)\<rparr>, env)
       \<and> map handle_on_failure (schedules sess) ! k
           = (schedules sess ! k)\<lparr>auto_block_triggered := Some False\<rparr>
       \<and> handle_body b2 desktop stamp2 executed2 st2 (map handle_on_failure (schedules sess) ! k)
           = Inr (map handle_on_failure (schedules sess) ! k, st2)
       \<and> auto_block_for_missed_schedules b desktop stamp (sess, env)
           = (Inr \<lparr>r_success = False, r_blocked_schedules = []\<rparr>,
              sess\<lparr>schedules := map (missed_on_failure env) (schedules sess)\<rparr>, env)
       \<and> map (missed_on_failure env) (schedules sess) ! k
           = (if is_admin env then schedules sess ! k
              else (schedules sess ! k)\<lparr>auto_blocked := Some False\<rparr>)
       \<and> get_flag (auto_block_triggered (map (missed_on_failure env) (schedules sess) ! k))
       \<and> \<not> get_flag (auto_blocked (map (missed_on_failure env) (schedules sess) ! k))
       \<and> (success (fst (block_websites b2 stamp2 env2)) \<longrightarrow>
            (\<exists>r st'. missed_loop b2 desktop stamp2 [map (missed_on_failure env) (schedules sess) ! k]
                        ((sess2, blocked2), env2)
                      = (r, [(map (missed_on_failure env) (schedules sess) ! k)
                               \<lparr>auto_blocked := Some True\<rparr>], st')))"
proof -
  let ?s = "schedules sess ! k"
  have h: "map handle_on_failure (schedules sess) ! k = ?s\<lparr>auto_block_triggered := Some False\<rparr>"
    using assms(3,4,5) by (simp add: handle_on_failure_def)
  have m: "map (missed_on_failure env) (schedules sess) ! k
             = (if is_admin env then ?s else ?s\<lparr>auto_blocked := Some False\<rparr>)"
    using assms(3,4,5) by (simp add: missed_on_failure_def)
  have pass: "handle_body b2 desktop stamp2 executed2 st2 (?s\<lparr>auto_block_triggered := Some False\<rparr>)
                = Inr (?s\<lparr>auto_block_triggered := Some False\<rparr>, st2)"
    by (cases st2) (auto simp: handle_body_def get_flag_def)
  have flags: "get_flag (auto_block_triggered (map (missed_on_failure env) (schedules sess) ! k))"
    "\<not> get_flag (auto_blocked (map (missed_on_failure env) (schedules sess) ! k))"
    using assms(4,5) by (simp_all add: m get_flag_def)
  have retry: "\<exists>r st'. missed_loop b2 desktop stamp2 [t] ((sess2, blocked2), env2)
                      = (r, [t\<lparr>auto_blocked := Some True\<rparr>], st')"
    if ok: "success (fst (block_websites b2 stamp2 env2))"
      and t: "get_flag (auto_block_triggered t)" "\<not> get_flag (auto_blocked t)" for t
  proof -
    obtain result env' where r: "block_websites b2 stamp2 env2 = (result, env')"
      by (cases "block_websites b2 stamp2 env2")
    have adm: "is_admin env2" using ok not_admin_block_fails[of env2 b2 stamp2] by blast
    show ?thesis using r ok adm t
      by (auto simp: Let_def lookup_def split: option.splits)
  qed
  show ?thesis
    using triggers_fail(1)[OF assms(1,2), where desktop = desktop and executed = executed]
      triggers_fail(2)[OF assms(1,2), where desktop = desktop] h pass m flags retry[OF _ flags]
    by simp
qed

lemma triggered_facts:
  "\<not> success (fst (block_websites (WebsiteBlocker BLOCKED_SITES) example_stamp plain_env))"
  "list_all well_formed (schedules triggered_session)"
  "0 < length (schedules triggered_session)"
  "get_flag (auto_block_triggered (schedules triggered_session ! 0))"
  "\<not> get_flag (auto_blocked (schedules triggered_session ! 0))"
  "success (fst (block_websites (WebsiteBlocker BLOCKED_SITES) example_stamp example_env))"
  by code_simp+

theorem failed_block_outcome_witness:
  "handle_auto_blocking (WebsiteBlocker BLOCKED_SITES) True example_stamp
       (combine 100 (hms 14 10 2)) (triggered_session, plain_env)
     = (Inr \<lparr>r_success = False, r_blocked_schedules = []\<rparr>,
        triggered_session\<lparr>schedules := map handle_on_failure (schedules triggered_session)\<rparr>,
        plain_env)
   \<and> map handle_on_failure (schedules triggered_session) ! 0
       = (schedules triggered_session ! 0)\<lparr>auto_block_triggered := Some False\<rparr>
   \<and> auto_block_for_missed_schedules (WebsiteBlocker BLOCKED_SITES) True example_stamp
       (triggered_session, plain_env)
     = (Inr \<lparr>r_success = False, r_blocked_schedules = []\<rparr>,
        triggered_session\<lparr>schedules := map (missed_on_failure plain_env) (schedules triggered_session)\<rparr>,
        plain_env)
   \<and> get_flag (auto_block_triggered (map (missed_on_failure plain_env) (schedules triggered_session) ! 0))
   \<and> (\<exists>r st'. missed_loop (WebsiteBlocker BLOCKED_SITES) True example_stamp
                 [map (missed_on_failure plain_env) (schedules triggered_session) ! 0]
                 ((triggered_session, []), example_env)
               = (r, [(map (missed_on_failure plain_env) (schedules triggered_session) ! 0)
                        \<lparr>auto_blocked := Some True\<rparr>], st'))"
  using failed_block_outcome[OF triggered_facts(1-5), where desktop = True
      and executed = "combine 100 (hms 14 10 2)" and ?b2.0 = "WebsiteBlocker BLOCKED_SITES"
      and ?stamp2.0 = example_stamp and ?env2.0 = example_env and ?sess2.0 = triggered_session
      and ?blocked2.0 = "[]"]
    triggered_facts(6)
  by blast

text \<open>
  The claim as stated fails for \<^verbatim>\<open>handle_auto_blocking\<close>. Ten minutes and one second
  after its start the evaluator triggers the auto-block of the task ``Study''; the process
  has no privileges, and the trigger resets \<^verbatim>\<open>auto_block_triggered\<close> instead of leaving it
  true for a later cycle.
\<close>

theorem failed_block_withdraws_trigger:
  "schedules (snd (check_enhanced_schedule_notifications True (combine 100 (hms 14 10 1))
       study_session)) = [triggered_task]
   \<and> auto_block_triggered triggered_task = Some True
   \<and> auto_blocked triggered_task = None
   \<and> is_admin plain_env = False
   \<and> fst (handle_auto_blocking (WebsiteBlocker BLOCKED_SITES) True example_stamp
            (combine 100 (hms 14 10 2))
            (snd (check_enhanced_schedule_notifications True (combine 100 (hms 14 10 1))
                    study_session), plain_env))
       = Inr \<lparr>r_success = False, r_blocked_schedules = []\<rparr>
   \<and> schedules (fst (snd (handle_auto_blocking (WebsiteBlocker BLOCKED_SITES) True example_stamp
            (combine 100 (hms 14 10 2))
            (snd (check_enhanced_schedule_notifications True (combine 100 (hms 14 10 1))
                    study_session), plain_env))))
       = [triggered_task\<lparr>auto_block_triggered := Some False\<rparr>]"
  by code_simp

section \<open>Adding a schedule\<close>






end
